theory Spec2Isabelle
  imports Main "HOL-Library.Word"
begin

unbundle bit_operations_syntax

section \<open>The archive codec's interface\<close>

text \<open>
  The ZIP codec (minizip-ng) is an external library: the repository only calls it. Its
  result codes and flag bits come from the codec's header; the engine only compares
  results against \<open>MZ_OK\<close> and \<open>MZ_END_OF_LIST\<close> and tests the encryption bit, so
  nothing below depends on the values beyond the two codes being different.
\<close>

type_synonym byte = "8 word"

definition MZ_OK :: int where
  "MZ_OK = 0"

definition MZ_END_OF_LIST :: int where
  "MZ_END_OF_LIST = -100"

definition MZ_ZIP_FLAG_ENCRYPTED :: "16 word" where
  "MZ_ZIP_FLAG_ENCRYPTED = 1"

text \<open>\<open>static_cast<int32_t>\<close> of a 64-bit value: the low 32 bits, read as two's complement.\<close>

definition int32_cast :: "int \<Rightarrow> int" where
  "int32_cast n = sint (word_of_int n :: 32 word)"

text \<open>The codec's entry record \<open>mz_zip_file\<close>, with the fields the engine reads.\<close>

record mz_zip_file =
  filename :: string
  uncompressed_size :: int
  compressed_size :: int
  modified_date :: int
  crc :: int
  compression_method :: int
  flag :: "16 word"
  comment :: "string option"
  comment_size :: int

section \<open>Errors\<close>

text \<open>
  Every \<open>xsink->raiseException\<close> of the engine is one constructor; \<open>exception_code\<close>
  gives the exception's first argument.
\<close>

datatype zip_error =
    ReaderCreateFailed
  | OpenReadFailed string int
  | WriterCreateFailed
  | OpenWriteFailed string int
  | CloseBusy int
  | NotInMemory
  | AlreadyClosed
  | FinalizeBusy int
  | NoArchiveData
  | ArchiveTooLarge int int
  | ArchiveAllocFailed
  | ArchiveClosed
  | NotOpenForWriting
  | NotOpenForReading
  | AbsolutePath string
  | PathTraversal string
  | BackslashInPath string
  | EntriesWalkError int
  | EntryNotFound string
  | EntryInfoFailed string
  | EntryTooLarge string int int
  | EncryptedOpenFailed string int
  | EntryOpenFailed string int
  | EntryAllocFailed string
  | EntryReadFailed string int
  | ExtractAllFailed string int
  | StreamOpenFailed string int
  | StreamNotOpen
  | StreamReadError string int
  | StreamPeekError string int
  | StreamClosed
  | StreamWriteError string int
  | StreamIncompleteWrite string int int

fun exception_code :: "zip_error \<Rightarrow> string" where
  "exception_code (AbsolutePath _) = ''ZIP-SECURITY-ERROR''"
| "exception_code (PathTraversal _) = ''ZIP-SECURITY-ERROR''"
| "exception_code (BackslashInPath _) = ''ZIP-SECURITY-ERROR''"
| "exception_code (StreamOpenFailed _ _) = ''ZIP-STREAM-ERROR''"
| "exception_code StreamNotOpen = ''ZIP-STREAM-ERROR''"
| "exception_code (StreamReadError _ _) = ''ZIP-STREAM-ERROR''"
| "exception_code (StreamPeekError _ _) = ''ZIP-STREAM-ERROR''"
| "exception_code StreamClosed = ''ZIP-STREAM-ERROR''"
| "exception_code (StreamWriteError _ _) = ''ZIP-STREAM-ERROR''"
| "exception_code (StreamIncompleteWrite _ _ _) = ''ZIP-STREAM-ERROR''"
| "exception_code _ = ''ZIP-ERROR''"

section \<open>Path security validator\<close>

text \<open>
  A C string is modelled by the list of its characters before the terminating NUL;
  \<open>cchar s i\<close> is \<open>s[i]\<close>, the terminator included.
\<close>

definition NUL :: char where
  "NUL = CHR 0x00"

definition BACKSLASH :: char where
  "BACKSLASH = CHR 0x5C"

definition cchar :: "string \<Rightarrow> nat \<Rightarrow> char" where
  "cchar s i = (if i < length s then s ! i else NUL)"

text \<open>
  The \<open>while (*p)\<close> loop of \<open>validateExtractPath\<close>; \<open>p\<close> is the offset of the pointer
  from \<open>entry_name\<close>. \<open>p[2]\<close> is read only once \<open>p[1]\<close> is a dot, so never beyond
  the terminator.
\<close>

function validate_scan :: "string \<Rightarrow> nat \<Rightarrow> zip_error option" where
  "validate_scan entry_name p =
     (if cchar entry_name p = NUL then None
      else if cchar entry_name p = CHR ''.'' \<and> cchar entry_name (p + 1) = CHR ''.''
            \<and> (p = 0 \<or> cchar entry_name (p - 1) = CHR ''/'')
            \<and> (cchar entry_name (p + 2) = NUL \<or> cchar entry_name (p + 2) = CHR ''/''
                 \<or> cchar entry_name (p + 2) = BACKSLASH)
        then Some (PathTraversal entry_name)
      else if cchar entry_name p = BACKSLASH then Some (BackslashInPath entry_name)
      else validate_scan entry_name (p + 1))"
  by pat_completeness auto
termination
  by (relation "measure (\<lambda>(s, p). length s - p)") (auto simp: cchar_def split: if_splits)

declare validate_scan.simps [simp del]

text \<open>
  \<open>validateExtractPath\<close>: \<open>None\<close> is the result \<open>true\<close>, \<open>Some e\<close> is the result
  \<open>false\<close> with \<open>e\<close> raised. A null \<open>entry_name\<close> is \<open>None\<close>; \<open>dest_path\<close> is not read.
\<close>

definition validateExtractPath :: "string option \<Rightarrow> string \<Rightarrow> zip_error option" where
  "validateExtractPath entry_name dest_path =
     (case entry_name of
        None \<Rightarrow> None
      | Some n \<Rightarrow>
          if cchar n 0 = CHR ''/'' then Some (AbsolutePath n)
          else validate_scan n 0)"


section \<open>The codec's handles\<close>

text \<open>
  The codec is a black box to the engine, so a handle is modelled by what the codec
  answers: a reader holds the central directory as a list of positions, each with the
  result codes the codec gives there, and a log of the calls made on it. Every call
  appends to the log, so an operation that leaves the handle unchanged made no call.

  A directory position answers \<open>move_err\<close> when the cursor moves onto it
  (\<open>goto_first_entry\<close>, \<open>goto_next_entry\<close>), \<open>info_err\<close> and \<open>slot_info\<close> to
  \<open>entry_get_info\<close>, \<open>open_err\<close> to \<open>entry_open\<close>; \<open>payload\<close> is what the entry's
  data stream delivers, at most \<open>read_chunk\<close> bytes per call, unless \<open>read_err\<close> is
  negative, which every read then returns; a request for no bytes is a parameter error
  (\<open>slot_read\<close> is the answer to a read at offset \<open>off\<close>).
  Moving past the last position answers \<open>MZ_END_OF_LIST\<close>. A directory is finite, so
  every walk ends.
\<close>

definition MZ_PARAM_ERROR :: int where
  "MZ_PARAM_ERROR = -102"

datatype reader_call =
    R_goto_first_entry
  | R_goto_next_entry
  | R_entry_get_info
  | R_locate_entry string
  | R_set_password string
  | R_entry_open
  | R_entry_read int
  | R_entry_close
  | R_save_all string

record dir_slot =
  move_err :: int
  info_err :: int
  slot_info :: mz_zip_file
  open_err :: int
  read_err :: int
  read_chunk :: nat
  payload :: "byte list"

record mz_zip_reader =
  rd_slots :: "dir_slot list"
  rd_cursor :: nat
  rd_offset :: nat
  rd_save_all_err :: int
  rd_calls :: "reader_call list"

definition rd_log :: "reader_call \<Rightarrow> mz_zip_reader \<Rightarrow> mz_zip_reader" where
  "rd_log c rd = rd\<lparr>rd_calls := rd_calls rd @ [c]\<rparr>"

definition cursor_code :: "dir_slot list \<Rightarrow> nat \<Rightarrow> int" where
  "cursor_code slots i = (if i < length slots then move_err (slots ! i) else MZ_END_OF_LIST)"

definition mz_zip_reader_goto_first_entry :: "mz_zip_reader \<Rightarrow> int \<times> mz_zip_reader" where
  "mz_zip_reader_goto_first_entry rd =
     (cursor_code (rd_slots rd) 0, rd_log R_goto_first_entry (rd\<lparr>rd_cursor := 0\<rparr>))"

definition mz_zip_reader_goto_next_entry :: "mz_zip_reader \<Rightarrow> int \<times> mz_zip_reader" where
  "mz_zip_reader_goto_next_entry rd =
     (cursor_code (rd_slots rd) (rd_cursor rd + 1),
      rd_log R_goto_next_entry (rd\<lparr>rd_cursor := rd_cursor rd + 1\<rparr>))"

text \<open>
  \<open>entry_get_info\<close> returns \<open>MZ_OK\<close> and points its out-parameter to the entry's
  record (\<open>Info\<close>), or returns another code and leaves the pointer null (\<open>InfoError\<close>).
\<close>

datatype info_result = InfoError int | Info mz_zip_file

definition mz_zip_reader_entry_get_info :: "mz_zip_reader \<Rightarrow> info_result \<times> mz_zip_reader" where
  "mz_zip_reader_entry_get_info rd =
     (if rd_cursor rd < length (rd_slots rd) then
        (let sl = rd_slots rd ! rd_cursor rd
         in (if info_err sl = MZ_OK then Info (slot_info sl) else InfoError (info_err sl),
             rd_log R_entry_get_info rd))
      else (InfoError MZ_PARAM_ERROR, rd_log R_entry_get_info rd))"

fun locate_from :: "dir_slot list \<Rightarrow> nat \<Rightarrow> string \<Rightarrow> int \<times> nat" where
  "locate_from [] i name = (MZ_END_OF_LIST, i)"
| "locate_from (sl # rest) i name =
     (if move_err sl \<noteq> MZ_OK then (move_err sl, i)
      else if filename (slot_info sl) = name then (MZ_OK, i)
      else locate_from rest (i + 1) name)"

definition mz_zip_reader_locate_entry :: "mz_zip_reader \<Rightarrow> string \<Rightarrow> int \<times> mz_zip_reader" where
  "mz_zip_reader_locate_entry rd name =
     (let (err, i) = locate_from (rd_slots rd) 0 name
      in (err, rd_log (R_locate_entry name) (rd\<lparr>rd_cursor := i\<rparr>)))"

definition mz_zip_reader_set_password :: "mz_zip_reader \<Rightarrow> string \<Rightarrow> mz_zip_reader" where
  "mz_zip_reader_set_password rd pw = rd_log (R_set_password pw) rd"

definition mz_zip_reader_entry_open :: "mz_zip_reader \<Rightarrow> int \<times> mz_zip_reader" where
  "mz_zip_reader_entry_open rd =
     ((if rd_cursor rd < length (rd_slots rd) then open_err (rd_slots rd ! rd_cursor rd)
       else MZ_PARAM_ERROR),
      rd_log R_entry_open (rd\<lparr>rd_offset := 0\<rparr>))"

text \<open>
  \<open>entry_read\<close> returns a negative code (\<open>ReadError\<close>), or the number of bytes it
  stored in the caller's buffer (\<open>ReadBytes\<close>, with those bytes); \<open>bytes_read\<close> is the
  \<open>int32_t\<close> returned. The test \<open>bytes_read < 0\<close> of a caller is the case \<open>ReadError\<close>.
\<close>

datatype read_result = ReadError int | ReadBytes "byte list"

fun bytes_read :: "read_result \<Rightarrow> int" where
  "bytes_read (ReadError e) = e"
| "bytes_read (ReadBytes bs) = int (length bs)"

definition slot_read :: "dir_slot \<Rightarrow> nat \<Rightarrow> int \<Rightarrow> read_result" where
  "slot_read sl off len =
     (if read_err sl < 0 then ReadError (read_err sl)
      else if len \<le> 0 then ReadError MZ_PARAM_ERROR
      else ReadBytes (take (min (nat len) (read_chunk sl)) (drop off (payload sl))))"

definition mz_zip_reader_entry_read :: "mz_zip_reader \<Rightarrow> int \<Rightarrow> read_result \<times> mz_zip_reader" where
  "mz_zip_reader_entry_read rd len =
     (if rd_cursor rd < length (rd_slots rd) then
        (case slot_read (rd_slots rd ! rd_cursor rd) (rd_offset rd) len of
           ReadError e \<Rightarrow> (ReadError e, rd_log (R_entry_read len) rd)
         | ReadBytes bs \<Rightarrow>
             (ReadBytes bs,
              rd_log (R_entry_read len) (rd\<lparr>rd_offset := rd_offset rd + length bs\<rparr>)))
      else (ReadError MZ_PARAM_ERROR, rd_log (R_entry_read len) rd))"

definition mz_zip_reader_entry_close :: "mz_zip_reader \<Rightarrow> mz_zip_reader" where
  "mz_zip_reader_entry_close rd = rd_log R_entry_close rd"

definition mz_zip_reader_save_all :: "mz_zip_reader \<Rightarrow> string \<Rightarrow> int \<times> mz_zip_reader" where
  "mz_zip_reader_save_all rd dest = (rd_save_all_err rd, rd_log (R_save_all dest) rd)"

text \<open>
  A writer answers \<open>wr_write_ret len\<close> to an \<open>entry_write\<close> of \<open>len\<close> bytes, and
  logs the call with the length it was asked for.
\<close>

datatype writer_call = W_entry_write int

record mz_zip_writer =
  wr_write_ret :: "int \<Rightarrow> int"
  wr_calls :: "writer_call list"

definition wr_log :: "writer_call \<Rightarrow> mz_zip_writer \<Rightarrow> mz_zip_writer" where
  "wr_log c w = w\<lparr>wr_calls := wr_calls w @ [c]\<rparr>"

definition mz_zip_writer_entry_write ::
    "mz_zip_writer \<Rightarrow> byte list \<Rightarrow> int \<Rightarrow> int \<times> mz_zip_writer" where
  "mz_zip_writer_entry_write w buf len = (wr_write_ret w len, wr_log (W_entry_write len) w)"

text \<open>
  The memory stream under an in-memory archive: what \<open>mz_stream_mem_get_buffer\<close> and
  \<open>mz_stream_mem_get_buffer_length\<close> report once the writer above it is closed.
\<close>

record mz_stream_mem =
  ms_buffer :: "byte list option"
  ms_length :: int

text \<open>
  \<open>malloc\<close>: whether the next request fails for want of memory, and the sizes
  requested so far. The size is a signed 64-bit value converted to \<open>size_t\<close>, so a
  negative one asks for at least \<open>2^63\<close> bytes and always fails.
\<close>

record allocator =
  malloc_fails :: bool
  malloc_calls :: "int list"

definition malloc :: "allocator \<Rightarrow> int \<Rightarrow> bool \<times> allocator" where
  "malloc heap n =
     (\<not> malloc_fails heap \<and> 0 \<le> n, heap\<lparr>malloc_calls := malloc_calls heap @ [n]\<rparr>)"

section \<open>Entry info\<close>

record entry_info =
  ei_name :: string
  ei_size :: int
  ei_compressed_size :: int
  ei_modified :: int
  ei_crc32 :: int
  ei_compression_method :: int
  ei_is_directory :: bool
  ei_is_encrypted :: bool
  ei_comment :: "string option"

definition createEntryInfo :: "mz_zip_file \<Rightarrow> entry_info" where
  "createEntryInfo file_info =
     (let len = length (filename file_info);
          is_dir = (len > 0 \<and> filename file_info ! (len - 1) = CHR ''/'')
      in \<lparr> ei_name = filename file_info,
           ei_size = uncompressed_size file_info,
           ei_compressed_size = compressed_size file_info,
           ei_modified = modified_date file_info,
           ei_crc32 = crc file_info,
           ei_compression_method = compression_method file_info,
           ei_is_directory = is_dir,
           ei_is_encrypted = (flag file_info AND MZ_ZIP_FLAG_ENCRYPTED \<noteq> 0),
           ei_comment = (case comment file_info of
                           Some c \<Rightarrow> if comment_size file_info > 0
                                     then Some (take (nat (comment_size file_info)) c) else None
                         | None \<Rightarrow> None) \<rparr>)"

section \<open>Archive session\<close>

text \<open>
  \<open>QoreZipFile\<close>. A handle is \<open>None\<close> when the pointer is null. The read-write lock
  is not modelled: an operation takes the session and returns it, so the properties
  below are about operations that run one after another.
\<close>

datatype ZipMode = ZIP_MODE_READ | ZIP_MODE_WRITE | ZIP_MODE_APPEND | ZIP_MODE_MEMORY

definition ZIP_DEFAULT_MAX_ALLOC_SIZE :: int where
  "ZIP_DEFAULT_MAX_ALLOC_SIZE = 1024 * 1024 * 1024"

record QoreZipFile =
  filepath :: string
  mode :: ZipMode
  reader :: "mz_zip_reader option"
  writer :: "mz_zip_writer option"
  mem_stream :: "mz_stream_mem option"
  password :: string
  in_memory :: bool
  closed :: bool
  active_streams :: int
  max_alloc_size :: int

text \<open>
  The constructor for a file-based archive. \<open>created\<close> is what the codec's create
  call returns (null on failure) and \<open>err\<close> the result of opening the file with it.
\<close>

definition openRead ::
    "QoreZipFile \<Rightarrow> mz_zip_reader option \<Rightarrow> int \<Rightarrow> zip_error option \<times> QoreZipFile" where
  "openRead s created err =
     (case created of
        None \<Rightarrow> (Some ReaderCreateFailed, s\<lparr>reader := None\<rparr>)
      | Some rd \<Rightarrow>
          if err \<noteq> MZ_OK then (Some (OpenReadFailed (filepath s) err), s\<lparr>reader := None\<rparr>)
          else (None, s\<lparr>reader := Some rd\<rparr>))"

definition openWrite ::
    "QoreZipFile \<Rightarrow> mz_zip_writer option \<Rightarrow> int \<Rightarrow> zip_error option \<times> QoreZipFile" where
  "openWrite s created err =
     (case created of
        None \<Rightarrow> (Some WriterCreateFailed, s\<lparr>writer := None\<rparr>)
      | Some w \<Rightarrow>
          if err \<noteq> MZ_OK then (Some (OpenWriteFailed (filepath s) err), s\<lparr>writer := None\<rparr>)
          else (None, s\<lparr>writer := Some w\<rparr>))"

definition QoreZipFile_path ::
    "string \<Rightarrow> ZipMode \<Rightarrow> mz_zip_reader option \<Rightarrow> mz_zip_writer option \<Rightarrow> int
      \<Rightarrow> zip_error option \<times> QoreZipFile" where
  "QoreZipFile_path path m created_reader created_writer err =
     (let s = \<lparr> filepath = path, mode = m, reader = None, writer = None,
                mem_stream = None, password = [], in_memory = False, closed = False,
                active_streams = 0, max_alloc_size = ZIP_DEFAULT_MAX_ALLOC_SIZE \<rparr>
      in if m = ZIP_MODE_READ then openRead s created_reader err
         else openWrite s created_writer err)"

definition setMaxAllocSize :: "QoreZipFile \<Rightarrow> int \<Rightarrow> QoreZipFile" where
  "setMaxAllocSize s sz = s\<lparr>max_alloc_size := sz\<rparr>"

text \<open>
  \<open>close\<close>: \<open>None\<close> is a return without exception. Closing and deleting a handle
  leaves the pointer null.
\<close>

definition QoreZipFile_close :: "QoreZipFile \<Rightarrow> zip_error option \<times> QoreZipFile" where
  "QoreZipFile_close s =
     (if closed s then (None, s)
      else if active_streams s > 0 then (Some (CloseBusy (active_streams s)), s)
      else (None, s\<lparr>reader := None, writer := None, mem_stream := None, closed := True\<rparr>))"

text \<open>
  \<open>toData\<close>. With a null memory stream the out-parameters keep their initial values
  \<open>nullptr\<close> and \<open>0\<close>.
\<close>

definition QoreZipFile_toData ::
    "QoreZipFile \<Rightarrow> allocator \<Rightarrow> (zip_error + byte list) \<times> QoreZipFile \<times> allocator" where
  "QoreZipFile_toData s heap =
     (if \<not> in_memory s then (Inl NotInMemory, s, heap)
      else if closed s then (Inl AlreadyClosed, s, heap)
      else if active_streams s > 0 then (Inl (FinalizeBusy (active_streams s)), s, heap)
      else
        (let s1 = (if writer s \<noteq> None then s\<lparr>writer := None\<rparr> else s);
             buf = (case mem_stream s1 of None \<Rightarrow> None | Some m \<Rightarrow> ms_buffer m);
             buf_size = (case mem_stream s1 of None \<Rightarrow> 0 | Some m \<Rightarrow> ms_length m)
         in case buf of
              None \<Rightarrow> (Inl NoArchiveData, s1, heap)
            | Some bytes \<Rightarrow>
                if buf_size \<le> 0 then (Inl NoArchiveData, s1, heap)
                else if buf_size > max_alloc_size s1
                  then (Inl (ArchiveTooLarge buf_size (max_alloc_size s1)), s1, heap)
                else
                  (let (copy, heap1) = malloc heap buf_size
                   in if \<not> copy then (Inl ArchiveAllocFailed, s1, heap1)
                      else (Inr (take (nat buf_size) bytes),
                            s1\<lparr>mem_stream := None, closed := True\<rparr>, heap1))))"

definition checkOpenUnlocked :: "QoreZipFile \<Rightarrow> bool \<Rightarrow> zip_error option" where
  "checkOpenUnlocked s forWrite =
     (if closed s then Some ArchiveClosed
      else if forWrite \<and> writer s = None then Some NotOpenForWriting
      else if \<not> forWrite \<and> reader s = None then Some NotOpenForReading
      else None)"

text \<open>
  The directory walks. In each, \<open>err\<close> is the loop variable of \<open>while (err == MZ_OK)\<close>.
  After \<open>checkOpenUnlocked\<close> has passed for reading the reader is not null; the branch
  for a null reader repeats that check's answer.
\<close>

function entries_loop ::
    "mz_zip_reader \<Rightarrow> int \<Rightarrow> entry_info list \<Rightarrow> int \<times> entry_info list \<times> mz_zip_reader" where
  "entries_loop rd err lst =
     (if err = MZ_OK then
        (case mz_zip_reader_entry_get_info rd of
           (InfoError e, rd1) \<Rightarrow> (e, lst, rd1)
         | (Info file_info, rd1) \<Rightarrow>
             (case mz_zip_reader_goto_next_entry rd1 of
                (err2, rd2) \<Rightarrow> entries_loop rd2 err2 (lst @ [createEntryInfo file_info])))
      else (err, lst, rd))"
  by pat_completeness auto
termination
  by (relation "measure (\<lambda>(rd, err, lst). length (rd_slots rd) - rd_cursor rd)")
     (auto simp: mz_zip_reader_entry_get_info_def mz_zip_reader_goto_next_entry_def rd_log_def
           Let_def split: if_splits)

declare entries_loop.simps [simp del]

definition QoreZipFile_entries :: "QoreZipFile \<Rightarrow> (zip_error + entry_info list) \<times> QoreZipFile" where
  "QoreZipFile_entries s =
     (case checkOpenUnlocked s False of
        Some e \<Rightarrow> (Inl e, s)
      | None \<Rightarrow>
          (case reader s of
             None \<Rightarrow> (Inl NotOpenForReading, s)
           | Some rd \<Rightarrow>
               (case mz_zip_reader_goto_first_entry rd of
                  (err0, rd0) \<Rightarrow>
                    (case entries_loop rd0 err0 [] of
                       (err, lst, rd1) \<Rightarrow>
                         if err \<noteq> MZ_END_OF_LIST \<and> err \<noteq> MZ_OK
                           then (Inl (EntriesWalkError err), s\<lparr>reader := Some rd1\<rparr>)
                         else (Inr lst, s\<lparr>reader := Some rd1\<rparr>)))))"

function count_loop :: "mz_zip_reader \<Rightarrow> int \<Rightarrow> int \<Rightarrow> int \<times> mz_zip_reader" where
  "count_loop rd err count =
     (if err = MZ_OK then
        (case mz_zip_reader_goto_next_entry rd of
           (err2, rd2) \<Rightarrow> count_loop rd2 err2 (count + 1))
      else (count, rd))"
  by pat_completeness auto
termination
  by (relation "measure (\<lambda>(rd, err, count).
         if err = MZ_OK then Suc (length (rd_slots rd) - rd_cursor rd) else 0)")
     (auto simp: mz_zip_reader_goto_next_entry_def rd_log_def cursor_code_def MZ_OK_def
           MZ_END_OF_LIST_def split: if_splits)

declare count_loop.simps [simp del]

definition QoreZipFile_count :: "QoreZipFile \<Rightarrow> (zip_error + int) \<times> QoreZipFile" where
  "QoreZipFile_count s =
     (case checkOpenUnlocked s False of
        Some e \<Rightarrow> (Inl e, s)
      | None \<Rightarrow>
          (case reader s of
             None \<Rightarrow> (Inl NotOpenForReading, s)
           | Some rd \<Rightarrow>
               (case mz_zip_reader_goto_first_entry rd of
                  (err0, rd0) \<Rightarrow>
                    (case count_loop rd0 err0 0 of
                       (count, rd1) \<Rightarrow> (Inr count, s\<lparr>reader := Some rd1\<rparr>)))))"

text \<open>
  \<open>read\<close>. The buffer is \<open>uncompressed_size\<close> bytes from \<open>malloc\<close>; the binary returned
  is its first \<open>bytes_read\<close> bytes, which are the bytes the codec stored.
\<close>

definition QoreZipFile_read ::
    "QoreZipFile \<Rightarrow> allocator \<Rightarrow> string \<Rightarrow> (zip_error + byte list) \<times> QoreZipFile \<times> allocator" where
  "QoreZipFile_read s heap name =
     (case checkOpenUnlocked s False of
        Some e \<Rightarrow> (Inl e, s, heap)
      | None \<Rightarrow>
          (case reader s of
             None \<Rightarrow> (Inl NotOpenForReading, s, heap)
           | Some rd \<Rightarrow>
               (case mz_zip_reader_locate_entry rd name of
                  (err, rd1) \<Rightarrow>
                    if err \<noteq> MZ_OK then (Inl (EntryNotFound name), s\<lparr>reader := Some rd1\<rparr>, heap)
                    else
                      (case mz_zip_reader_entry_get_info rd1 of
                         (InfoError e, rd2) \<Rightarrow>
                           (Inl (EntryInfoFailed name), s\<lparr>reader := Some rd2\<rparr>, heap)
                       | (Info file_info, rd2) \<Rightarrow>
                           if uncompressed_size file_info = 0
                             then (Inr [], s\<lparr>reader := Some rd2\<rparr>, heap)
                           else if uncompressed_size file_info > max_alloc_size s
                             then (Inl (EntryTooLarge name (uncompressed_size file_info)
                                          (max_alloc_size s)),
                                   s\<lparr>reader := Some rd2\<rparr>, heap)
                           else
                             (let rd3 = (if password s \<noteq> []
                                         then mz_zip_reader_set_password rd2 (password s)
                                         else rd2)
                              in case mz_zip_reader_entry_open rd3 of
                                   (err4, rd4) \<Rightarrow>
                                     if err4 \<noteq> MZ_OK then
                                       (Inl (if flag file_info AND MZ_ZIP_FLAG_ENCRYPTED \<noteq> 0
                                             then EncryptedOpenFailed name err4
                                             else EntryOpenFailed name err4),
                                        s\<lparr>reader := Some rd4\<rparr>, heap)
                                     else
                                       (case malloc heap (uncompressed_size file_info) of
                                          (buf, heap1) \<Rightarrow>
                                            if \<not> buf then
                                              (Inl (EntryAllocFailed name),
                                               s\<lparr>reader := Some (mz_zip_reader_entry_close rd4)\<rparr>,
                                               heap1)
                                            else
                                              (case mz_zip_reader_entry_read rd4
                                                      (int32_cast (uncompressed_size file_info)) of
                                                 (r, rd5) \<Rightarrow>
                                                   (let rd6 = mz_zip_reader_entry_close rd5
                                                    in case r of
                                                         ReadError e \<Rightarrow>
                                                           (Inl (EntryReadFailed name e),
                                                            s\<lparr>reader := Some rd6\<rparr>, heap1)
                                                       | ReadBytes bs \<Rightarrow>
                                                           (Inr bs, s\<lparr>reader := Some rd6\<rparr>,
                                                            heap1)))))))))"

text \<open>
  \<open>extractAll\<close>: the validation walk, then the optional password from \<open>opts\<close>, then
  the codec's bulk extraction. \<open>validate_loop\<close> returns the exception of the first
  rejected name, if any.
\<close>

function validate_loop ::
    "mz_zip_reader \<Rightarrow> int \<Rightarrow> string \<Rightarrow> zip_error option \<times> mz_zip_reader" where
  "validate_loop rd err destPath =
     (if err = MZ_OK then
        (case mz_zip_reader_entry_get_info rd of
           (r, rd1) \<Rightarrow>
             (case (case r of
                      Info file_info \<Rightarrow> validateExtractPath (Some (filename file_info)) destPath
                    | InfoError e \<Rightarrow> None) of
                Some x \<Rightarrow> (Some x, rd1)
              | None \<Rightarrow>
                  (case mz_zip_reader_goto_next_entry rd1 of
                     (err2, rd2) \<Rightarrow> validate_loop rd2 err2 destPath)))
      else (None, rd))"
  by pat_completeness auto
termination
  by (relation "measure (\<lambda>(rd, err, d).
         if err = MZ_OK then Suc (length (rd_slots rd) - rd_cursor rd) else 0)")
     (auto simp: mz_zip_reader_goto_next_entry_def mz_zip_reader_entry_get_info_def rd_log_def
           cursor_code_def MZ_OK_def MZ_END_OF_LIST_def Let_def split: if_splits)

declare validate_loop.simps [simp del]

definition QoreZipFile_extractAll ::
    "QoreZipFile \<Rightarrow> string \<Rightarrow> string option \<Rightarrow> zip_error option \<times> QoreZipFile" where
  "QoreZipFile_extractAll s destPath opts_password =
     (case checkOpenUnlocked s False of
        Some e \<Rightarrow> (Some e, s)
      | None \<Rightarrow>
          (case reader s of
             None \<Rightarrow> (Some NotOpenForReading, s)
           | Some rd \<Rightarrow>
               (case mz_zip_reader_goto_first_entry rd of
                  (err0, rd0) \<Rightarrow>
                    (case validate_loop rd0 err0 destPath of
                       (Some x, rd1) \<Rightarrow> (Some x, s\<lparr>reader := Some rd1\<rparr>)
                     | (None, rd1) \<Rightarrow>
                         (let rd2 = (case opts_password of
                                       Some pw \<Rightarrow> mz_zip_reader_set_password rd1 pw
                                     | None \<Rightarrow> rd1)
                          in case mz_zip_reader_save_all rd2 destPath of
                               (err, rd3) \<Rightarrow>
                                 if err \<noteq> MZ_OK
                                   then (Some (ExtractAllFailed destPath err),
                                         s\<lparr>reader := Some rd3\<rparr>)
                                 else (None, s\<lparr>reader := Some rd3\<rparr>))))))"

section \<open>Entry input stream\<close>

text \<open>
  \<open>ZipInputStream\<close>. The stream holds a pointer to the session's reader, so its
  operations take the reader and return it. \<open>peek_byte\<close> is \<open>-2\<close> when nothing is
  buffered.
\<close>

record ZipInputStream =
  zis_entry_name :: string
  zis_entry_open :: bool
  zis_eof :: bool
  zis_peek_byte :: int

definition ZipInputStream_new ::
    "mz_zip_reader \<Rightarrow> string \<Rightarrow> zip_error option \<times> ZipInputStream \<times> mz_zip_reader" where
  "ZipInputStream_new rd name =
     (let st = \<lparr> zis_entry_name = name, zis_entry_open = False, zis_eof = False,
                 zis_peek_byte = -2 \<rparr>
      in case mz_zip_reader_entry_open rd of
           (err, rd1) \<Rightarrow>
             if err \<noteq> MZ_OK then (Some (StreamOpenFailed name err), st, rd1)
             else (None, st\<lparr>zis_entry_open := True\<rparr>, rd1))"

text \<open>The destructor closes the entry if it is open. It does nothing else.\<close>

definition ZipInputStream_delete ::
    "ZipInputStream \<Rightarrow> mz_zip_reader \<Rightarrow> ZipInputStream \<times> mz_zip_reader" where
  "ZipInputStream_delete st rd =
     (if zis_entry_open st then (st\<lparr>zis_entry_open := False\<rparr>, mz_zip_reader_entry_close rd)
      else (st, rd))"

text \<open>
  \<open>read\<close> returns the byte count and the bytes stored in the caller's buffer, or the
  raised exception (the C++ function then returns 0).
\<close>

definition ZipInputStream_read ::
    "ZipInputStream \<Rightarrow> mz_zip_reader \<Rightarrow> int
      \<Rightarrow> (zip_error + int \<times> byte list) \<times> ZipInputStream \<times> mz_zip_reader" where
  "ZipInputStream_read st rd limit =
     (if \<not> zis_entry_open st then (Inl StreamNotOpen, st, rd)
      else if zis_eof st then (Inr (0, []), st, rd)
      else
        (let peeked = (zis_peek_byte st \<ge> 0);
             buf0 = (if peeked then [word_of_int (zis_peek_byte st)] else []);
             st1 = (if peeked then st\<lparr>zis_peek_byte := -2\<rparr> else st);
             limit1 = (if peeked then limit - 1 else limit);
             total_read = (if peeked then 1 else 0)
         in if peeked \<and> limit1 \<le> 0 then (Inr (total_read, buf0), st1, rd)
            else
              (case mz_zip_reader_entry_read rd (int32_cast limit1) of
                 (r, rd1) \<Rightarrow>
                   (case r of
                      ReadError e \<Rightarrow> (Inl (StreamReadError (zis_entry_name st) e), st1, rd1)
                    | ReadBytes bs \<Rightarrow>
                        (Inr (total_read + bytes_read r, buf0 @ bs),
                         (if bytes_read r = 0 then st1\<lparr>zis_eof := True\<rparr> else st1), rd1)))))"

text \<open>
  \<open>peek\<close> returns the byte as a value from 0 to 255, \<open>-1\<close> at the end of the entry, or
  the raised exception (the C++ function then returns \<open>-2\<close>).
\<close>

definition ZipInputStream_peek ::
    "ZipInputStream \<Rightarrow> mz_zip_reader \<Rightarrow> (zip_error + int) \<times> ZipInputStream \<times> mz_zip_reader" where
  "ZipInputStream_peek st rd =
     (if \<not> zis_entry_open st then (Inl StreamNotOpen, st, rd)
      else if zis_eof st then (Inr (-1), st, rd)
      else if zis_peek_byte st \<ge> 0 then (Inr (zis_peek_byte st), st, rd)
      else
        (case mz_zip_reader_entry_read rd 1 of
           (r, rd1) \<Rightarrow>
             (case r of
                ReadError e \<Rightarrow> (Inl (StreamPeekError (zis_entry_name st) e), st, rd1)
              | ReadBytes [] \<Rightarrow> (Inr (-1), st\<lparr>zis_eof := True\<rparr>, rd1)
              | ReadBytes (b # _) \<Rightarrow> (Inr (uint b), st\<lparr>zis_peek_byte := uint b\<rparr>, rd1))))"

section \<open>Entry output stream\<close>

record ZipOutputStream =
  zos_entry_name :: string
  zos_entry_open :: bool
  zos_closed :: bool

text \<open>
  \<open>write\<close> leaves the stream's own fields as they are; it returns the raised
  exception, if any, and the writer.
\<close>

definition ZipOutputStream_write ::
    "ZipOutputStream \<Rightarrow> mz_zip_writer \<Rightarrow> byte list \<Rightarrow> int \<Rightarrow> zip_error option \<times> mz_zip_writer" where
  "ZipOutputStream_write st w ptr count =
     (if zos_closed st then (Some StreamClosed, w)
      else if \<not> zos_entry_open st then (Some StreamNotOpen, w)
      else if count \<le> 0 then (None, w)
      else
        (case mz_zip_writer_entry_write w ptr (int32_cast count) of
           (bytes_written, w1) \<Rightarrow>
             if bytes_written < 0
               then (Some (StreamWriteError (zos_entry_name st) bytes_written), w1)
             else if bytes_written \<noteq> count
               then (Some (StreamIncompleteWrite (zos_entry_name st) bytes_written count), w1)
             else (None, w1)))"

section \<open>Opening and disposing of streams\<close>

text \<open>
  \<open>openInputStream\<close> counts the stream before constructing it and takes the count
  back when the constructor raised. Destroying a stream runs its destructor on the
  session's reader.
\<close>

definition QoreZipFile_openInputStream ::
    "QoreZipFile \<Rightarrow> string \<Rightarrow> (zip_error + ZipInputStream) \<times> QoreZipFile" where
  "QoreZipFile_openInputStream s name =
     (case checkOpenUnlocked s False of
        Some e \<Rightarrow> (Inl e, s)
      | None \<Rightarrow>
          (case reader s of
             None \<Rightarrow> (Inl NotOpenForReading, s)
           | Some rd \<Rightarrow>
               (case mz_zip_reader_locate_entry rd name of
                  (err, rd1) \<Rightarrow>
                    if err \<noteq> MZ_OK then (Inl (EntryNotFound name), s\<lparr>reader := Some rd1\<rparr>)
                    else
                      (let rd2 = (if password s \<noteq> []
                                  then mz_zip_reader_set_password rd1 (password s) else rd1);
                           s1 = s\<lparr>active_streams := active_streams s + 1\<rparr>
                       in case ZipInputStream_new rd2 name of
                            (Some e, st, rd3) \<Rightarrow>
                              (Inl e, s1\<lparr>reader := Some rd3,
                                         active_streams := active_streams s1 - 1\<rparr>)
                          | (None, st, rd3) \<Rightarrow> (Inr st, s1\<lparr>reader := Some rd3\<rparr>)))))"

definition dispose_input_stream :: "QoreZipFile \<Rightarrow> ZipInputStream \<Rightarrow> QoreZipFile" where
  "dispose_input_stream s st =
     (case reader s of
        None \<Rightarrow> s
      | Some rd \<Rightarrow> s\<lparr>reader := Some (snd (ZipInputStream_delete st rd))\<rparr>)"

section \<open>Session invariant and example archives\<close>

text \<open>
  The two busy exceptions, and the invariant that a closed session counts no stream:
  the constructor establishes it and the operations keep it.
\<close>

fun is_busy_error :: "zip_error \<Rightarrow> bool" where
  "is_busy_error (CloseBusy _) = True"
| "is_busy_error (FinalizeBusy _) = True"
| "is_busy_error _ = False"

definition stream_count_inv :: "QoreZipFile \<Rightarrow> bool" where
  "stream_count_inv s = (closed s \<longrightarrow> \<not> active_streams s > 0)"

text \<open>
  A directory position with a well-behaved entry, a reader on a directory, and sessions
  on them.
\<close>

definition plain_slot :: "string \<Rightarrow> int \<Rightarrow> byte list \<Rightarrow> dir_slot" where
  "plain_slot name declared bytes =
     \<lparr> move_err = MZ_OK, info_err = MZ_OK,
       slot_info = \<lparr> filename = name, uncompressed_size = declared,
                     compressed_size = int (length bytes), modified_date = 0, crc = 0,
                     compression_method = 0, flag = 0, comment = None, comment_size = 0 \<rparr>,
       open_err = MZ_OK, read_err = 0, read_chunk = 4096, payload = bytes \<rparr>"

definition reader_of :: "dir_slot list \<Rightarrow> mz_zip_reader" where
  "reader_of slots =
     \<lparr> rd_slots = slots, rd_cursor = 0, rd_offset = 0, rd_save_all_err = MZ_OK,
       rd_calls = [] \<rparr>"

definition file_session :: "dir_slot list \<Rightarrow> QoreZipFile" where
  "file_session slots =
     snd (QoreZipFile_path ''a.zip'' ZIP_MODE_READ (Some (reader_of slots)) None MZ_OK)"

definition memory_session :: "byte list \<Rightarrow> QoreZipFile" where
  "memory_session bytes =
     \<lparr> filepath = [], mode = ZIP_MODE_WRITE, reader = None,
       writer = Some \<lparr> wr_write_ret = (\<lambda>len. len), wr_calls = [] \<rparr>,
       mem_stream = Some \<lparr> ms_buffer = Some bytes, ms_length = int (length bytes) \<rparr>,
       password = [], in_memory = True, closed = False, active_streams = 0,
       max_alloc_size = ZIP_DEFAULT_MAX_ALLOC_SIZE \<rparr>"

definition heap0 :: allocator where
  "heap0 = \<lparr> malloc_fails = False, malloc_calls = [] \<rparr>"

text \<open>
  The positions a directory walk visits are those before the first one whose cursor
  move fails; \<open>walk_end\<close> is the code that ends the walk.
\<close>

definition walked :: "dir_slot list \<Rightarrow> dir_slot list" where
  "walked slots = takeWhile (\<lambda>sl. move_err sl = MZ_OK) slots"

definition walk_end :: "dir_slot list \<Rightarrow> int" where
  "walk_end slots =
     (case dropWhile (\<lambda>sl. move_err sl = MZ_OK) slots of
        [] \<Rightarrow> MZ_END_OF_LIST
      | sl # _ \<Rightarrow> move_err sl)"

definition interrupted_dir :: "dir_slot list" where
  "interrupted_dir =
     [plain_slot ''a.txt'' 3 [1, 2, 3],
      (plain_slot ''b.txt'' 1 [7])\<lparr>move_err := -103\<rparr>,
      plain_slot ''c.txt'' 0 []]"

text \<open>
  The codec calls of a directory walk, and the statement that the validator accepts
  the name of every position a walk visits and the codec can describe. In a clean
  directory the codec fails nowhere, so a walk visits and describes every entry.
\<close>

definition walk_calls :: "reader_call set" where
  "walk_calls = {R_goto_first_entry, R_goto_next_entry, R_entry_get_info}"

definition names_accepted :: "dir_slot list \<Rightarrow> string \<Rightarrow> bool" where
  "names_accepted slots dest =
     (\<forall>sl \<in> set (walked slots). info_err sl = MZ_OK \<longrightarrow>
         validateExtractPath (Some (filename (slot_info sl))) dest = None)"

definition clean_dir :: "dir_slot list \<Rightarrow> bool" where
  "clean_dir slots = list_all (\<lambda>sl. move_err sl = MZ_OK \<and> info_err sl = MZ_OK) slots"

definition hostile_dir :: "dir_slot list" where
  "hostile_dir = [plain_slot ''ok.txt'' 3 [1, 2, 3], plain_slot ''../evil'' 1 [7]]"

text \<open>
  A directory in which the cursor cannot be moved to the second position, with a
  traversal name behind it.
\<close>

definition hostile_tail_dir :: "dir_slot list" where
  "hostile_tail_dir =
     [plain_slot ''ok.txt'' 3 [1, 2, 3],
      (plain_slot ''b.txt'' 1 [7])\<lparr>move_err := -103\<rparr>,
      plain_slot ''../evil'' 1 [9]]"

text \<open>
  A file-based session on which one input stream has been opened, an open output
  stream, a writer that stores whatever it is asked to, and one that always stores a
  byte less.
\<close>

definition busy_file_session :: QoreZipFile where
  "busy_file_session =
     snd (QoreZipFile_openInputStream (file_session [plain_slot ''a.txt'' 3 [1, 2, 3]]) ''a.txt'')"

definition open_output_stream :: ZipOutputStream where
  "open_output_stream = \<lparr> zos_entry_name = ''e'', zos_entry_open = True, zos_closed = False \<rparr>"

definition echo_writer :: mz_zip_writer where
  "echo_writer = \<lparr> wr_write_ret = (\<lambda>len. len), wr_calls = [] \<rparr>"

definition short_writer :: mz_zip_writer where
  "short_writer = \<lparr> wr_write_ret = (\<lambda>len. len - 1), wr_calls = [] \<rparr>"

section \<open>Runs of an input stream\<close>

text \<open>
  An interleaving of \<open>read\<close> and \<open>peek\<close> calls on one stream, run until the first
  exception; each call's answer is recorded.
\<close>

datatype stream_op = OpRead int | OpPeek

datatype op_result = Delivered int "byte list" | Peeked int

fun run_ops ::
    "ZipInputStream \<Rightarrow> mz_zip_reader \<Rightarrow> stream_op list
      \<Rightarrow> (zip_error + op_result list) \<times> ZipInputStream \<times> mz_zip_reader" where
  "run_ops st rd [] = (Inr [], st, rd)"
| "run_ops st rd (OpRead limit # ops) =
     (case ZipInputStream_read st rd limit of
        (Inl e, st1, rd1) \<Rightarrow> (Inl e, st1, rd1)
      | (Inr (n, bs), st1, rd1) \<Rightarrow>
          (case run_ops st1 rd1 ops of
             (Inl e, st2, rd2) \<Rightarrow> (Inl e, st2, rd2)
           | (Inr rs, st2, rd2) \<Rightarrow> (Inr (Delivered n bs # rs), st2, rd2)))"
| "run_ops st rd (OpPeek # ops) =
     (case ZipInputStream_peek st rd of
        (Inl e, st1, rd1) \<Rightarrow> (Inl e, st1, rd1)
      | (Inr v, st1, rd1) \<Rightarrow>
          (case run_ops st1 rd1 ops of
             (Inl e, st2, rd2) \<Rightarrow> (Inl e, st2, rd2)
           | (Inr rs, st2, rd2) \<Rightarrow> (Inr (Peeked v # rs), st2, rd2)))"

text \<open>A \<open>read\<close> is given a buffer of at least one byte.\<close>

fun valid_op :: "stream_op \<Rightarrow> bool" where
  "valid_op (OpRead limit) = (1 \<le> limit)"
| "valid_op OpPeek = True"

fun delivered :: "op_result list \<Rightarrow> byte list" where
  "delivered [] = []"
| "delivered (Delivered n bs # rs) = bs @ delivered rs"
| "delivered (Peeked v # rs) = delivered rs"

text \<open>
  What a stream has not delivered yet: the buffered look-ahead byte, if any, then the
  part of the entry's data the codec has not handed out.
\<close>

definition peek_buffer :: "ZipInputStream \<Rightarrow> byte list" where
  "peek_buffer st = (if zis_peek_byte st \<ge> 0 then [word_of_int (zis_peek_byte st)] else [])"

definition unread :: "mz_zip_reader \<Rightarrow> byte list" where
  "unread rd = drop (rd_offset rd) (payload (rd_slots rd ! rd_cursor rd))"

definition pending :: "ZipInputStream \<Rightarrow> mz_zip_reader \<Rightarrow> byte list" where
  "pending st rd = peek_buffer st @ unread rd"

text \<open>
  The state of an open stream on an entry whose data stream hands out at least one byte
  per call: the look-ahead is empty or a byte value, and the end-of-data flag is set
  only when nothing is left.
\<close>

definition zis_inv :: "ZipInputStream \<Rightarrow> mz_zip_reader \<Rightarrow> bool" where
  "zis_inv st rd =
     (zis_entry_open st \<and> rd_cursor rd < length (rd_slots rd)
      \<and> 0 < read_chunk (rd_slots rd ! rd_cursor rd)
      \<and> (zis_peek_byte st = -2 \<or> (0 \<le> zis_peek_byte st \<and> zis_peek_byte st \<le> 255))
      \<and> (zis_eof st \<longrightarrow> pending st rd = []))"

text \<open>
  The answers a plain queue of bytes would give: \<open>peek\<close> shows the first byte without
  removing it, or \<open>-1\<close> on an empty queue; \<open>read\<close> removes a non-empty front part and
  returns its length, or returns \<open>0\<close> on an empty queue.
\<close>

fun queue_results :: "byte list \<Rightarrow> op_result list \<Rightarrow> bool" where
  "queue_results q [] = True"
| "queue_results q (Peeked v # rs) =
     (v = (case q of [] \<Rightarrow> -1 | b # _ \<Rightarrow> uint b) \<and> queue_results q rs)"
| "queue_results q (Delivered n bs # rs) =
     (n = int (length bs) \<and> q = bs @ drop (length bs) q \<and> (bs = [] \<longleftrightarrow> q = [])
      \<and> queue_results (drop (length bs) q) rs)"

text \<open>A reader on a three-byte entry, and an interleaving of calls to run on it.\<close>

definition sample_reader :: mz_zip_reader where
  "sample_reader = reader_of [plain_slot ''a.txt'' 3 [1, 2, 3]]"

definition sample_ops :: "stream_op list" where
  "sample_ops = [OpPeek, OpRead 2, OpPeek, OpPeek, OpRead 5, OpRead 5, OpPeek]"

text \<open>
  The stream opened on that entry, with the reader it shares with the session, and a
  run of calls from a given state of the two, so that the calls can go on after one of
  them has raised.
\<close>

definition sample_stream :: "ZipInputStream \<times> mz_zip_reader" where
  "sample_stream = snd (ZipInputStream_new sample_reader ''a.txt'')"

definition run_from ::
    "ZipInputStream \<times> mz_zip_reader \<Rightarrow> stream_op list
      \<Rightarrow> (zip_error + op_result list) \<times> ZipInputStream \<times> mz_zip_reader" where
  "run_from c ops = run_ops (fst c) (snd c) ops"

text \<open>
  Two streams of one session: a stream is opened on \<open>a.txt\<close> and peeks, a second
  stream is opened on \<open>b.txt\<close>, then the first stream reads. The result is the
  answer of the \<open>peek\<close> and that of the \<open>read\<close>.
\<close>

definition two_entry_session :: QoreZipFile where
  "two_entry_session =
     file_session [plain_slot ''a.txt'' 3 [1, 2, 3], plain_slot ''b.txt'' 2 [7, 8]]"

definition two_streams_run ::
    "((zip_error + int) \<times> (zip_error + int \<times> byte list)) option" where
  "two_streams_run =
     (case QoreZipFile_openInputStream two_entry_session ''a.txt'' of
        (Inl e, s1) \<Rightarrow> None
      | (Inr stA, s1) \<Rightarrow>
          (case reader s1 of
             None \<Rightarrow> None
           | Some rdA \<Rightarrow>
               (case ZipInputStream_peek stA rdA of
                  (p, stA1, rd1) \<Rightarrow>
                    (case QoreZipFile_openInputStream (s1\<lparr>reader := Some rd1\<rparr>) ''b.txt'' of
                       (Inl e, s2) \<Rightarrow> None
                     | (Inr stB, s2) \<Rightarrow>
                         (case reader s2 of
                            None \<Rightarrow> None
                          | Some rd2 \<Rightarrow> Some (p, fst (ZipInputStream_read stA1 rd2 5)))))))"

text \<open>The rejection rule in the words of the specification.\<close>

definition spec_dotdot_at :: "string \<Rightarrow> nat \<Rightarrow> bool" where
  "spec_dotdot_at s i =
     (i + 1 < length s \<and> s ! i = CHR ''.'' \<and> s ! (i + 1) = CHR ''.''
        \<and> (i = 0 \<or> s ! (i - 1) = CHR ''/'')
        \<and> (i + 2 = length s \<or> s ! (i + 2) = CHR ''/'' \<or> s ! (i + 2) = BACKSLASH))"

definition spec_dotdot_segment :: "string \<Rightarrow> bool" where
  "spec_dotdot_segment s = (\<exists>i < length s. spec_dotdot_at s i)"

definition spec_path_rejected :: "string \<Rightarrow> bool" where
  "spec_path_rejected s =
     ((s \<noteq> [] \<and> hd s = CHR ''/'') \<or> spec_dotdot_segment s \<or> BACKSLASH \<in> set s)"

section \<open>Properties\<close>

subsection \<open>Path security validator\<close>

lemma cchar_NUL_iff: "NUL \<notin> set s \<Longrightarrow> cchar s i = NUL \<longleftrightarrow> length s \<le> i"
  by (auto simp: cchar_def dest: nth_mem)

lemma cchar_eq_iff: "c \<noteq> NUL \<Longrightarrow> cchar s i = c \<longleftrightarrow> i < length s \<and> s ! i = c"
  by (auto simp: cchar_def)

lemma special_chars_not_NUL:
  "CHR ''.'' \<noteq> NUL" "CHR ''/'' \<noteq> NUL" "BACKSLASH \<noteq> NUL"
  by (simp_all add: NUL_def BACKSLASH_def)

lemma scan_cond_dotdot:
  assumes "NUL \<notin> set s" "p < length s"
  shows "(cchar s p = CHR ''.'' \<and> cchar s (p + 1) = CHR ''.''
            \<and> (p = 0 \<or> cchar s (p - 1) = CHR ''/'')
            \<and> (cchar s (p + 2) = NUL \<or> cchar s (p + 2) = CHR ''/''
                 \<or> cchar s (p + 2) = BACKSLASH)) \<longleftrightarrow> spec_dotdot_at s p"
  using assms
  by (auto simp: cchar_NUL_iff cchar_eq_iff special_chars_not_NUL spec_dotdot_at_def)

text \<open>The scan from offset \<open>p\<close> accepts exactly when no later offset is a traversal or a backslash.\<close>

lemma validate_scan_None_iff:
  assumes "NUL \<notin> set s"
  shows "validate_scan s p = None \<longleftrightarrow>
         (\<forall>i. p \<le> i \<and> i < length s \<longrightarrow> \<not> spec_dotdot_at s i \<and> s ! i \<noteq> BACKSLASH)"
  using assms
proof (induction s p rule: validate_scan.induct)
  case (1 s p)
  note nul = \<open>NUL \<notin> set s\<close>
  show ?case
  proof (cases "p < length s")
    case False
    then have "cchar s p = NUL" by (simp add: cchar_def)
    then have "validate_scan s p = None" by (subst validate_scan.simps) simp
    moreover have "\<forall>i. p \<le> i \<and> i < length s \<longrightarrow> \<not> spec_dotdot_at s i \<and> s ! i \<noteq> BACKSLASH"
      using False by auto
    ultimately show ?thesis by simp
  next
    case True
    have nn: "cchar s p \<noteq> NUL" using True nul by (simp add: cchar_NUL_iff)
    have split: "(\<forall>i. p \<le> i \<and> i < length s \<longrightarrow> \<not> spec_dotdot_at s i \<and> s ! i \<noteq> BACKSLASH) \<longleftrightarrow>
        (\<not> spec_dotdot_at s p \<and> s ! p \<noteq> BACKSLASH) \<and>
        (\<forall>i. p + 1 \<le> i \<and> i < length s \<longrightarrow> \<not> spec_dotdot_at s i \<and> s ! i \<noteq> BACKSLASH)"
      using True by (metis Suc_eq_plus1 Suc_leI le_eq_less_or_eq le_refl Suc_le_lessD)
    have bs: "cchar s p = BACKSLASH \<longleftrightarrow> s ! p = BACKSLASH"
      using True by (simp add: cchar_def)
    have unfold: "validate_scan s p =
        (if spec_dotdot_at s p then Some (PathTraversal s)
         else if s ! p = BACKSLASH then Some (BackslashInPath s)
         else validate_scan s (p + 1))"
      by (subst validate_scan.simps, subst scan_cond_dotdot[OF nul True], subst bs)
         (simp only: nn if_False)
    show ?thesis
    proof (cases "spec_dotdot_at s p \<or> s ! p = BACKSLASH")
      case True
      then show ?thesis using unfold split by auto
    next
      case False
      then have c: "\<not> (cchar s p = CHR ''.'' \<and> cchar s (p + 1) = CHR ''.''
            \<and> (p = 0 \<or> cchar s (p - 1) = CHR ''/'')
            \<and> (cchar s (p + 2) = NUL \<or> cchar s (p + 2) = CHR ''/''
                 \<or> cchar s (p + 2) = BACKSLASH))"
        using scan_cond_dotdot[OF nul \<open>p < length s\<close>] by simp
      have nb': "cchar s p \<noteq> BACKSLASH" using False bs by simp
      have "validate_scan s (p + 1) = None \<longleftrightarrow>
           (\<forall>i. p + 1 \<le> i \<and> i < length s \<longrightarrow> \<not> spec_dotdot_at s i \<and> s ! i \<noteq> BACKSLASH)"
        using "1.IH"[OF nn c nb' nul] .
      then show ?thesis using False unfold split by simp
    qed
  qed
qed

lemma validate_scan_error:
  "validate_scan s p = Some e \<Longrightarrow> e = PathTraversal s \<or> e = BackslashInPath s"
proof (induction s p rule: validate_scan.induct)
  case (1 s p)
  define C where "C \<longleftrightarrow> cchar s p = CHR ''.'' \<and> cchar s (p + 1) = CHR ''.''
            \<and> (p = 0 \<or> cchar s (p - 1) = CHR ''/'')
            \<and> (cchar s (p + 2) = NUL \<or> cchar s (p + 2) = CHR ''/''
                 \<or> cchar s (p + 2) = BACKSLASH)"
  have eq: "validate_scan s p =
      (if cchar s p = NUL then None
       else if C then Some (PathTraversal s)
       else if cchar s p = BACKSLASH then Some (BackslashInPath s)
       else validate_scan s (p + 1))"
    unfolding C_def by (rule validate_scan.simps)
  show ?case
  proof (cases "cchar s p = NUL \<or> C \<or> cchar s p = BACKSLASH")
    case True
    then show ?thesis using eq "1.prems" by (auto split: if_splits)
  next
    case False
    then have "validate_scan s (p + 1) = Some e" using eq "1.prems" by simp
    moreover from False have "cchar s p \<noteq> NUL" "\<not> C" "cchar s p \<noteq> BACKSLASH" by simp_all
    ultimately show ?thesis using "1.IH" unfolding C_def by blast
  qed
qed

lemma validateExtractPath_error:
  "validateExtractPath n dest = Some e \<Longrightarrow>
     (\<exists>x. n = Some x \<and> (e = AbsolutePath x \<or> e = PathTraversal x \<or> e = BackslashInPath x))"
  by (auto simp: validateExtractPath_def split: option.splits if_splits dest: validate_scan_error)

lemma validateExtractPath_security:
  assumes "validateExtractPath n dest = Some e"
  shows "exception_code e = ''ZIP-SECURITY-ERROR''"
proof -
  from validateExtractPath_error[OF assms] obtain x
    where "e = AbsolutePath x \<or> e = PathTraversal x \<or> e = BackslashInPath x" by blast
  then show ?thesis
    by (elim disjE) (simp_all only: exception_code.simps)
qed

lemma hd_conv_cchar: "(s \<noteq> [] \<and> hd s = CHR ''/'') \<longleftrightarrow> cchar s 0 = CHR ''/''"
  by (cases s) (auto simp: cchar_def NUL_def)

lemma validateExtractPath_iff:
  assumes "NUL \<notin> set name"
  shows "(\<exists>e. validateExtractPath (Some name) dest = Some e) \<longleftrightarrow> spec_path_rejected name"
proof -
  have scan: "validate_scan name 0 = None \<longleftrightarrow>
      (\<forall>i<length name. \<not> spec_dotdot_at name i \<and> name ! i \<noteq> BACKSLASH)"
    using validate_scan_None_iff[OF assms, of 0] by simp
  have mem: "BACKSLASH \<in> set name \<longleftrightarrow> (\<exists>i<length name. name ! i = BACKSLASH)"
    by (metis in_set_conv_nth)
  have "validate_scan name 0 \<noteq> None \<longleftrightarrow> spec_dotdot_segment name \<or> BACKSLASH \<in> set name"
    unfolding scan mem spec_dotdot_segment_def by blast
  then have "(\<exists>e. validate_scan name 0 = Some e)
      \<longleftrightarrow> spec_dotdot_segment name \<or> BACKSLASH \<in> set name"
    by simp
  then show ?thesis
    unfolding validateExtractPath_def spec_path_rejected_def hd_conv_cchar
    by (simp del: ex_simps)
qed

lemma createEntryInfo_is_directory:
  "ei_is_directory (createEntryInfo fi) \<longleftrightarrow> filename fi \<noteq> [] \<and> last (filename fi) = CHR ''/''"
  by (auto simp: createEntryInfo_def Let_def last_conv_nth)

text \<open>
  Claim C2. For an entry name (a C string, so without a NUL character) the validator
  raises exactly when the name starts with \<open>/\<close>, or has the two characters \<open>..\<close> at the
  start or right after a \<open>/\<close> and followed by the end of the name, \<open>/\<close> or a backslash,
  or contains a backslash; whatever it raises is a \<open>ZIP-SECURITY-ERROR\<close>. The names
  \<open>../x\<close>, \<open>..\<close>, \<open>a/../b\<close>, \<open>/abs/path\<close> and \<open>a\b\<close> are rejected, \<open>a..b\<close> and \<open>dir/\<close>
  are accepted, and entry info marks a name as a directory exactly when it ends in \<open>/\<close>,
  as \<open>dir/\<close> does.
\<close>

theorem validateExtractPath_rejects_exactly:
  "(NUL \<notin> set name \<longrightarrow>
      ((\<exists>e. validateExtractPath (Some name) dest = Some e) \<longleftrightarrow> spec_path_rejected name))
   \<and> (\<forall>e. validateExtractPath (Some name) dest = Some e
          \<longrightarrow> exception_code e = ''ZIP-SECURITY-ERROR'')
   \<and> validateExtractPath (Some ''../x'') dest = Some (PathTraversal ''../x'')
   \<and> validateExtractPath (Some ''..'') dest = Some (PathTraversal ''..'')
   \<and> validateExtractPath (Some ''a/../b'') dest = Some (PathTraversal ''a/../b'')
   \<and> validateExtractPath (Some ''/abs/path'') dest = Some (AbsolutePath ''/abs/path'')
   \<and> validateExtractPath (Some [CHR ''a'', BACKSLASH, CHR ''b'']) dest
        = Some (BackslashInPath [CHR ''a'', BACKSLASH, CHR ''b''])
   \<and> validateExtractPath (Some ''a..b'') dest = None
   \<and> validateExtractPath (Some ''dir/'') dest = None
   \<and> ei_is_directory (createEntryInfo (file_info\<lparr>filename := ''dir/''\<rparr>))
   \<and> (ei_is_directory (createEntryInfo file_info)
        \<longleftrightarrow> filename file_info \<noteq> [] \<and> last (filename file_info) = CHR ''/'')"
proof -
  have t1: "validateExtractPath (Some ''../x'') dest = Some (PathTraversal ''../x'')"
    by code_simp
  have t2: "validateExtractPath (Some ''..'') dest = Some (PathTraversal ''..'')"
    by code_simp
  have t3: "validateExtractPath (Some ''a/../b'') dest = Some (PathTraversal ''a/../b'')"
    by code_simp
  have t4: "validateExtractPath (Some ''/abs/path'') dest = Some (AbsolutePath ''/abs/path'')"
    by code_simp
  have t5: "validateExtractPath (Some [CHR ''a'', BACKSLASH, CHR ''b'']) dest
        = Some (BackslashInPath [CHR ''a'', BACKSLASH, CHR ''b''])"
    by code_simp
  have t6: "validateExtractPath (Some ''a..b'') dest = None"
    by code_simp
  have t7: "validateExtractPath (Some ''dir/'') dest = None"
    by code_simp
  have t8: "ei_is_directory (createEntryInfo (file_info\<lparr>filename := ''dir/''\<rparr>))"
    by (simp add: createEntryInfo_is_directory)
  show ?thesis
    using validateExtractPath_iff[of name dest] validateExtractPath_security[of "Some name" dest]
      t1 t2 t3 t4 t5 t6 t7 t8 createEntryInfo_is_directory[of file_info]
    by blast
qed

theorem validateExtractPath_rejects_exactly_witness:
  "NUL \<notin> set ''a/../b''
   \<and> validateExtractPath (Some ''a/../b'') ''/tmp/out'' = Some (PathTraversal ''a/../b'')
   \<and> spec_path_rejected ''a/../b''
   \<and> exception_code (PathTraversal ''a/../b'') = ''ZIP-SECURITY-ERROR''"
proof -
  have n: "NUL \<notin> set ''a/../b''" by (simp add: NUL_def)
  from validateExtractPath_rejects_exactly[where name = "''a/../b''" and dest = "''/tmp/out''"] n
  show ?thesis by auto
qed

subsection \<open>Closing and finalizing\<close>

lemma QoreZipFile_path_inv:
  "stream_count_inv (snd (QoreZipFile_path path m cr cw err))"
  by (simp add: QoreZipFile_path_def openRead_def openWrite_def stream_count_inv_def Let_def
      split: option.splits)

lemma close_inv: "stream_count_inv s \<Longrightarrow> stream_count_inv (snd (QoreZipFile_close s))"
  by (simp add: QoreZipFile_close_def stream_count_inv_def)

lemma toData_inv:
  "stream_count_inv s \<Longrightarrow> stream_count_inv (fst (snd (QoreZipFile_toData s heap)))"
  by (simp add: QoreZipFile_toData_def stream_count_inv_def Let_def malloc_def
      split: option.splits prod.splits)

lemma openInputStream_inv:
  "stream_count_inv s \<Longrightarrow> stream_count_inv (snd (QoreZipFile_openInputStream s name))"
  by (auto simp: QoreZipFile_openInputStream_def stream_count_inv_def checkOpenUnlocked_def Let_def
      split: option.splits prod.splits if_splits)

lemma reader_operations_inv:
  "stream_count_inv s \<Longrightarrow> stream_count_inv (snd (QoreZipFile_count s))"
  "stream_count_inv s \<Longrightarrow> stream_count_inv (snd (QoreZipFile_entries s))"
  "stream_count_inv s \<Longrightarrow> stream_count_inv (snd (QoreZipFile_extractAll s dest pw))"
  "stream_count_inv s \<Longrightarrow> stream_count_inv (setMaxAllocSize s n)"
  by (simp_all add: QoreZipFile_count_def QoreZipFile_entries_def QoreZipFile_extractAll_def
      setMaxAllocSize_def stream_count_inv_def Let_def split: option.splits prod.splits)

lemma read_inv:
  "stream_count_inv s \<Longrightarrow> stream_count_inv (fst (snd (QoreZipFile_read s heap name)))"
  by (simp add: QoreZipFile_read_def stream_count_inv_def Let_def
      split: option.splits prod.splits info_result.splits read_result.splits)

lemma dispose_input_stream_fields:
  "active_streams (dispose_input_stream s st) = active_streams s"
  "closed (dispose_input_stream s st) = closed s"
  by (simp_all add: dispose_input_stream_def split: option.splits)

lemma dispose_input_stream_inv:
  "stream_count_inv s \<Longrightarrow> stream_count_inv (dispose_input_stream s st)"
  by (simp add: stream_count_inv_def dispose_input_stream_fields)

lemma busy_file_session_eval:
  "active_streams busy_file_session = 1" "\<not> closed busy_file_session"
  "\<not> in_memory busy_file_session"
  by (simp_all add: busy_file_session_def file_session_def QoreZipFile_path_def openRead_def
      QoreZipFile_openInputStream_def checkOpenUnlocked_def reader_of_def plain_slot_def
      mz_zip_reader_locate_entry_def ZipInputStream_new_def mz_zip_reader_entry_open_def
      rd_log_def MZ_OK_def Let_def)

text \<open>Disposing of a stream leaves the count as it is, so the session stays busy.\<close>

lemma close_after_dispose_still_busy:
  "fst (QoreZipFile_close (dispose_input_stream busy_file_session st)) = Some (CloseBusy 1)"
  by (simp add: QoreZipFile_close_def dispose_input_stream_fields busy_file_session_eval)

text \<open>
  Claim C1, as stated, fails on a file-based session with an open stream: \<open>toData\<close>
  tests \<open>in_memory\<close> before it looks at the streams, so the exception is the one for
  an archive that is not in memory, not a busy one.
\<close>

theorem busy_error_counterexample:
  "active_streams busy_file_session > 0
   \<and> fst (QoreZipFile_toData busy_file_session heap0) = Inl NotInMemory
   \<and> \<not> is_busy_error NotInMemory"
  by (simp add: busy_file_session_eval QoreZipFile_toData_def)

text \<open>
  Claim C1, amended. On a session that counts a stream (and so, by the session
  invariant, is not closed) \<open>close\<close> raises the busy exception, and \<open>toData\<close> raises
  the busy exception when the archive is in memory and the not-in-memory exception when
  it is file-based; both leave every field of the session as it was, so the closed flag
  stays clear and no handle is released. On a session whose count is not positive,
  \<open>close\<close> raises nothing and leaves the session closed, with the three handles null if
  it was open before; and \<open>toData\<close> on an open in-memory session returns the bytes and
  closes the session when the memory stream reports a non-empty buffer within
  \<open>max_alloc_size\<close> and the copy can be allocated.
\<close>

theorem busy_session_refuses_close_and_finalize:
  "(stream_count_inv s \<and> active_streams s > 0 \<longrightarrow>
       QoreZipFile_close s = (Some (CloseBusy (active_streams s)), s)
     \<and> QoreZipFile_toData s heap =
         (Inl (if in_memory s then FinalizeBusy (active_streams s) else NotInMemory), s, heap))
   \<and> (\<not> active_streams s > 0 \<longrightarrow>
       fst (QoreZipFile_close s) = None \<and> closed (snd (QoreZipFile_close s))
       \<and> (\<not> closed s \<longrightarrow> reader (snd (QoreZipFile_close s)) = None
             \<and> writer (snd (QoreZipFile_close s)) = None
             \<and> mem_stream (snd (QoreZipFile_close s)) = None))
   \<and> (\<not> active_streams s > 0 \<and> in_memory s \<and> \<not> closed s \<and> mem_stream s = Some m
        \<and> ms_buffer m = Some bytes \<and> 0 < ms_length m \<and> ms_length m \<le> max_alloc_size s
        \<and> \<not> malloc_fails heap \<longrightarrow>
       fst (QoreZipFile_toData s heap) = Inr (take (nat (ms_length m)) bytes)
       \<and> closed (fst (snd (QoreZipFile_toData s heap))))"
  by (auto simp: QoreZipFile_close_def QoreZipFile_toData_def stream_count_inv_def Let_def
      malloc_def)

theorem busy_session_refuses_close_and_finalize_witness:
  "stream_count_inv busy_file_session \<and> active_streams busy_file_session > 0
   \<and> QoreZipFile_close busy_file_session = (Some (CloseBusy 1), busy_file_session)
   \<and> QoreZipFile_toData busy_file_session heap0 = (Inl NotInMemory, busy_file_session, heap0)
   \<and> \<not> active_streams (memory_session [1, 2, 3]) > 0
   \<and> fst (QoreZipFile_close (memory_session [1, 2, 3])) = None
   \<and> reader (snd (QoreZipFile_close (memory_session [1, 2, 3]))) = None
   \<and> writer (snd (QoreZipFile_close (memory_session [1, 2, 3]))) = None
   \<and> mem_stream (snd (QoreZipFile_close (memory_session [1, 2, 3]))) = None
   \<and> fst (QoreZipFile_toData (memory_session [1, 2, 3]) heap0) = Inr [1, 2, 3]
   \<and> closed (fst (snd (QoreZipFile_toData (memory_session [1, 2, 3]) heap0)))"
proof -
  have b: "stream_count_inv busy_file_session" "active_streams busy_file_session > 0"
    by (simp_all add: stream_count_inv_def busy_file_session_eval)
  have m: "\<not> active_streams (memory_session [1, 2, 3]) > 0" "in_memory (memory_session [1, 2, 3])"
    "\<not> closed (memory_session [1, 2, 3])"
    "mem_stream (memory_session [1, 2, 3]) = Some \<lparr> ms_buffer = Some [1, 2, 3], ms_length = 3 \<rparr>"
    "max_alloc_size (memory_session [1, 2, 3]) = 1073741824" "\<not> malloc_fails heap0"
    by (simp_all add: memory_session_def heap0_def ZIP_DEFAULT_MAX_ALLOC_SIZE_def)
  from busy_session_refuses_close_and_finalize[where s = busy_file_session and heap = heap0]
       busy_session_refuses_close_and_finalize[where s = "memory_session [1, 2, 3]" and heap = heap0
         and m = "\<lparr> ms_buffer = Some [1, 2, 3], ms_length = 3 \<rparr>" and bytes = "[1, 2, 3]"]
       b m busy_file_session_eval
  show ?thesis by simp
qed

text \<open>
  Claim C8. On a session with no active stream \<open>close\<close> raises nothing and leaves the
  session closed, and a second \<open>close\<close> raises nothing and returns the session exactly
  as the first left it.
\<close>

theorem close_idempotent:
  assumes "\<not> active_streams s > 0"
  shows "fst (QoreZipFile_close s) = None
       \<and> closed (snd (QoreZipFile_close s))
       \<and> QoreZipFile_close (snd (QoreZipFile_close s)) = (None, snd (QoreZipFile_close s))"
  using assms by (simp add: QoreZipFile_close_def)

theorem close_idempotent_witness:
  "\<not> active_streams (memory_session [1, 2]) > 0
   \<and> fst (QoreZipFile_close (memory_session [1, 2])) = None
   \<and> closed (snd (QoreZipFile_close (memory_session [1, 2])))
   \<and> QoreZipFile_close (snd (QoreZipFile_close (memory_session [1, 2])))
       = (None, snd (QoreZipFile_close (memory_session [1, 2])))"
proof -
  have a: "\<not> active_streams (memory_session [1, 2]) > 0"
    by (simp add: memory_session_def)
  from close_idempotent[OF a] a show ?thesis by simp
qed

text \<open>
  Claim C5. When \<open>toData\<close> returns data, the session was in memory, not closed and
  without active streams, it is closed afterwards, and every further \<open>toData\<close> on it
  raises the already-closed exception and changes nothing. On a session that is not in
  memory \<open>toData\<close> always raises, and changes nothing.
\<close>

theorem toData_single_shot:
  "(\<forall>data s' heap'. QoreZipFile_toData s heap = (Inr data, s', heap') \<longrightarrow>
       in_memory s \<and> \<not> closed s \<and> \<not> active_streams s > 0 \<and> closed s'
       \<and> (\<forall>heap2. QoreZipFile_toData s' heap2 = (Inl AlreadyClosed, s', heap2)))
   \<and> (\<not> in_memory s \<longrightarrow> QoreZipFile_toData s heap = (Inl NotInMemory, s, heap))"
  by (auto simp: QoreZipFile_toData_def Let_def malloc_def split: if_splits option.splits)

theorem toData_single_shot_witness:
  "QoreZipFile_toData (memory_session [1, 2, 3]) heap0
     = (Inr [1, 2, 3], fst (snd (QoreZipFile_toData (memory_session [1, 2, 3]) heap0)),
        snd (snd (QoreZipFile_toData (memory_session [1, 2, 3]) heap0)))
   \<and> closed (fst (snd (QoreZipFile_toData (memory_session [1, 2, 3]) heap0)))
   \<and> fst (QoreZipFile_toData (fst (snd (QoreZipFile_toData (memory_session [1, 2, 3]) heap0))) heap0)
       = Inl AlreadyClosed
   \<and> \<not> in_memory (file_session [])
   \<and> fst (QoreZipFile_toData (file_session []) heap0) = Inl NotInMemory"
proof -
  have ok: "QoreZipFile_toData (memory_session [1, 2, 3]) heap0
     = (Inr [1, 2, 3], fst (snd (QoreZipFile_toData (memory_session [1, 2, 3]) heap0)),
        snd (snd (QoreZipFile_toData (memory_session [1, 2, 3]) heap0)))"
    by (simp add: QoreZipFile_toData_def memory_session_def heap0_def malloc_def
        ZIP_DEFAULT_MAX_ALLOC_SIZE_def Let_def)
  have f: "\<not> in_memory (file_session [])"
    by (simp add: file_session_def QoreZipFile_path_def openRead_def MZ_OK_def Let_def)
  from toData_single_shot[where s = "memory_session [1, 2, 3]" and heap = heap0] ok
       toData_single_shot[where s = "file_session []" and heap = heap0] f
  show ?thesis by (metis fst_conv)
qed

subsection \<open>Output stream\<close>

lemma int32_cast_id: "- 2147483648 \<le> n \<Longrightarrow> n \<le> 2147483647 \<Longrightarrow> int32_cast n = n"
  unfolding int32_cast_def
  by (simp add: sint_sbintrunc' signed_take_bit_int_eq_self)

text \<open>
  Claim C7, as stated, fails for a count beyond 32 bits: the length handed to the codec
  is \<open>static_cast<int32_t>(count)\<close>. For \<open>count = 2^32 + 5\<close> the one codec write asks
  for 5 bytes, and the comparison with \<open>count\<close> then raises.
\<close>

theorem write_truncates_counterexample:
  "\<not> zos_closed open_output_stream \<and> zos_entry_open open_output_stream
   \<and> ZipOutputStream_write open_output_stream echo_writer (replicate 4294967301 0) 4294967301
       = (Some (StreamIncompleteWrite ''e'' 5 4294967301),
          echo_writer\<lparr>wr_calls := [W_entry_write 5]\<rparr>)"
  by (simp add: ZipOutputStream_write_def open_output_stream_def echo_writer_def
      mz_zip_writer_entry_write_def wr_log_def int32_cast_def)

text \<open>
  Claim C7, amended. On an open output stream, \<open>write\<close> with \<open>count \<le> 0\<close> raises
  nothing and makes no codec call. With \<open>count > 0\<close> it makes exactly one codec write,
  whose length is the 32-bit truncation of \<open>count\<close>, which is \<open>count\<close> itself up to
  \<open>2^31 - 1\<close>; it raises nothing exactly when the codec reports \<open>count\<close> bytes written,
  so a short write raises, and nothing is retried.
\<close>

theorem write_one_codec_call:
  assumes "\<not> zos_closed st" "zos_entry_open st"
  shows "(count \<le> 0 \<longrightarrow> ZipOutputStream_write st w ptr count = (None, w))
    \<and> (count > 0 \<longrightarrow>
         snd (ZipOutputStream_write st w ptr count)
           = w\<lparr>wr_calls := wr_calls w @ [W_entry_write (int32_cast count)]\<rparr>
         \<and> (count \<le> 2147483647 \<longrightarrow> int32_cast count = count)
         \<and> (fst (ZipOutputStream_write st w ptr count) = None
              \<longleftrightarrow> wr_write_ret w (int32_cast count) = count)
         \<and> (wr_write_ret w (int32_cast count) < count
              \<longrightarrow> fst (ZipOutputStream_write st w ptr count) \<noteq> None))"
  using assms
  by (auto simp: ZipOutputStream_write_def mz_zip_writer_entry_write_def wr_log_def int32_cast_id)

theorem write_one_codec_call_witness:
  "\<not> zos_closed open_output_stream \<and> zos_entry_open open_output_stream
   \<and> ZipOutputStream_write open_output_stream echo_writer [1, 2, 3] 0 = (None, echo_writer)
   \<and> ZipOutputStream_write open_output_stream echo_writer [1, 2, 3] 3
        = (None, echo_writer\<lparr>wr_calls := [W_entry_write 3]\<rparr>)
   \<and> fst (ZipOutputStream_write open_output_stream short_writer [1, 2, 3] 3) \<noteq> None"
proof -
  have o: "\<not> zos_closed open_output_stream" "zos_entry_open open_output_stream"
    by (simp_all add: open_output_stream_def)
  have e: "wr_write_ret echo_writer = (\<lambda>len. len)" "wr_calls echo_writer = []"
    "wr_write_ret short_writer 3 < 3"
    by (simp_all add: echo_writer_def short_writer_def)
  from write_one_codec_call[OF o, where w = echo_writer and ptr = "[1, 2, 3]" and count = 0]
       write_one_codec_call[OF o, where w = echo_writer and ptr = "[1, 2, 3]" and count = 3]
       write_one_codec_call[OF o, where w = short_writer and ptr = "[1, 2, 3]" and count = 3]
       o e
  show ?thesis by (cases "ZipOutputStream_write open_output_stream echo_writer [1, 2, 3] 3") simp
qed

subsection \<open>Reading an entry\<close>

lemma file_session_eval:
  "checkOpenUnlocked (file_session slots) False = None"
  "reader (file_session slots) = Some (reader_of slots)"
  "max_alloc_size (file_session slots) = 1073741824"
  "password (file_session slots) = []"
  by (simp_all add: file_session_def QoreZipFile_path_def openRead_def checkOpenUnlocked_def
      ZIP_DEFAULT_MAX_ALLOC_SIZE_def Let_def)

lemma setMaxAllocSize_eval:
  "checkOpenUnlocked (setMaxAllocSize s n) b = checkOpenUnlocked s b"
  "reader (setMaxAllocSize s n) = reader s"
  "max_alloc_size (setMaxAllocSize s n) = n"
  by (simp_all add: setMaxAllocSize_def checkOpenUnlocked_def)

text \<open>
  Claim C4, amended. In a session open for reading, for every entry the codec locates
  and describes whose declared uncompressed size is not zero and exceeds
  \<open>max_alloc_size\<close>, \<open>read\<close> raises the size-limit exception; the allocator is left
  untouched, and the only codec calls made are the locate and the info call, so the
  entry is not opened.
\<close>

theorem read_enforces_ceiling:
  assumes "checkOpenUnlocked s False = None" and "reader s = Some rd"
    and "locate_from (rd_slots rd) 0 name = (MZ_OK, i)" and "i < length (rd_slots rd)"
    and "rd_slots rd ! i = sl" and "info_err sl = MZ_OK"
    and "uncompressed_size (slot_info sl) \<noteq> 0"
    and "uncompressed_size (slot_info sl) > max_alloc_size s"
  shows "QoreZipFile_read s heap name =
           (Inl (EntryTooLarge name (uncompressed_size (slot_info sl)) (max_alloc_size s)),
            s\<lparr>reader := Some (rd\<lparr>rd_cursor := i,
                  rd_calls := rd_calls rd @ [R_locate_entry name, R_entry_get_info]\<rparr>)\<rparr>,
            heap)"
  using assms
  by (simp add: QoreZipFile_read_def mz_zip_reader_locate_entry_def
      mz_zip_reader_entry_get_info_def rd_log_def Let_def)

text \<open>
  Claim C10. When \<open>read\<close> reaches its one entry read (the entry is found and
  described, its declared size is not zero and within the ceiling, it opens and the
  buffer is allocated) and the codec stores fewer bytes than the declared size, \<open>read\<close>
  raises nothing and returns exactly the bytes stored, as many as the codec reported.
\<close>

theorem read_returns_codec_count:
  assumes "checkOpenUnlocked s False = None" and "reader s = Some rd"
    and "locate_from (rd_slots rd) 0 name = (MZ_OK, i)" and "i < length (rd_slots rd)"
    and "rd_slots rd ! i = sl" and "info_err sl = MZ_OK"
    and "uncompressed_size (slot_info sl) \<noteq> 0"
    and "uncompressed_size (slot_info sl) \<le> max_alloc_size s"
    and "open_err sl = MZ_OK" and "\<not> malloc_fails heap"
    and "slot_read sl 0 (int32_cast (uncompressed_size (slot_info sl))) = ReadBytes bs"
    and "bytes_read (ReadBytes bs) < uncompressed_size (slot_info sl)"
  shows "fst (QoreZipFile_read s heap name) = Inr bs
       \<and> int (length bs) = bytes_read (ReadBytes bs)"
  using assms
  by (simp add: QoreZipFile_read_def mz_zip_reader_locate_entry_def
      mz_zip_reader_entry_get_info_def mz_zip_reader_set_password_def
      mz_zip_reader_entry_open_def mz_zip_reader_entry_read_def mz_zip_reader_entry_close_def
      malloc_def rd_log_def Let_def)


text \<open>
  Claim C4, as stated, fails for an empty entry under a negative ceiling: the test for
  a zero size comes first and returns an empty binary.
\<close>

theorem read_zero_size_counterexample:
  "uncompressed_size (slot_info (plain_slot ''e'' 0 []))
     > max_alloc_size (setMaxAllocSize (file_session [plain_slot ''e'' 0 []]) (-1))
   \<and> fst (QoreZipFile_read (setMaxAllocSize (file_session [plain_slot ''e'' 0 []]) (-1)) heap0 ''e'')
       = Inr []"
  by (simp add: QoreZipFile_read_def setMaxAllocSize_eval file_session_eval reader_of_def
      plain_slot_def mz_zip_reader_locate_entry_def mz_zip_reader_entry_get_info_def rd_log_def
      MZ_OK_def Let_def)

theorem read_enforces_ceiling_witness:
  "checkOpenUnlocked (setMaxAllocSize (file_session [plain_slot ''e'' 100 []]) 99) False = None
   \<and> locate_from [plain_slot ''e'' 100 []] 0 ''e'' = (MZ_OK, 0)
   \<and> info_err (plain_slot ''e'' 100 []) = MZ_OK
   \<and> uncompressed_size (slot_info (plain_slot ''e'' 100 [])) = 100
   \<and> max_alloc_size (setMaxAllocSize (file_session [plain_slot ''e'' 100 []]) 99) = 99
   \<and> fst (QoreZipFile_read (setMaxAllocSize (file_session [plain_slot ''e'' 100 []]) 99) heap0 ''e'')
       = Inl (EntryTooLarge ''e'' 100 99)
   \<and> snd (snd (QoreZipFile_read (setMaxAllocSize (file_session [plain_slot ''e'' 100 []]) 99)
                 heap0 ''e'')) = heap0"
proof -
  let ?s = "setMaxAllocSize (file_session [plain_slot ''e'' 100 []]) 99"
  have h: "checkOpenUnlocked ?s False = None"
    "reader ?s = Some (reader_of [plain_slot ''e'' 100 []])"
    "locate_from (rd_slots (reader_of [plain_slot ''e'' 100 []])) 0 ''e'' = (MZ_OK, 0)"
    "0 < length (rd_slots (reader_of [plain_slot ''e'' 100 []]))"
    "rd_slots (reader_of [plain_slot ''e'' 100 []]) ! 0 = plain_slot ''e'' 100 []"
    "info_err (plain_slot ''e'' 100 []) = MZ_OK"
    "uncompressed_size (slot_info (plain_slot ''e'' 100 [])) \<noteq> 0"
    "uncompressed_size (slot_info (plain_slot ''e'' 100 [])) > max_alloc_size ?s"
    by (simp_all add: setMaxAllocSize_eval file_session_eval reader_of_def plain_slot_def)
  have v: "uncompressed_size (slot_info (plain_slot ''e'' 100 [])) = 100"
    "max_alloc_size ?s = 99" "locate_from [plain_slot ''e'' 100 []] 0 ''e'' = (MZ_OK, 0)"
    by (simp_all add: setMaxAllocSize_eval plain_slot_def)
  from read_enforces_ceiling[OF h, of heap0] h(1,6) v
  show ?thesis by simp
qed

theorem read_returns_codec_count_witness:
  "checkOpenUnlocked (file_session [plain_slot ''b.txt'' 1 [7], plain_slot ''a.txt'' 10 [1, 2, 3]])
      False = None
   \<and> locate_from [plain_slot ''b.txt'' 1 [7], plain_slot ''a.txt'' 10 [1, 2, 3]] 0 ''a.txt''
       = (MZ_OK, 1)
   \<and> slot_read (plain_slot ''a.txt'' 10 [1, 2, 3]) 0 (int32_cast 10) = ReadBytes [1, 2, 3]
   \<and> bytes_read (ReadBytes [1, 2, 3]) = 3
   \<and> uncompressed_size (slot_info (plain_slot ''a.txt'' 10 [1, 2, 3])) = 10
   \<and> fst (QoreZipFile_read
            (file_session [plain_slot ''b.txt'' 1 [7], plain_slot ''a.txt'' 10 [1, 2, 3]])
            heap0 ''a.txt'') = Inr [1, 2, 3]"
proof -
  let ?dir = "[plain_slot ''b.txt'' 1 [7], plain_slot ''a.txt'' 10 [1, 2, 3]]"
  let ?sl = "plain_slot ''a.txt'' 10 [1, 2, 3]"
  have h: "checkOpenUnlocked (file_session ?dir) False = None"
    "reader (file_session ?dir) = Some (reader_of ?dir)"
    "locate_from (rd_slots (reader_of ?dir)) 0 ''a.txt'' = (MZ_OK, 1)"
    "1 < length (rd_slots (reader_of ?dir))"
    "rd_slots (reader_of ?dir) ! 1 = ?sl"
    "info_err ?sl = MZ_OK"
    "uncompressed_size (slot_info ?sl) \<noteq> 0"
    "uncompressed_size (slot_info ?sl) \<le> max_alloc_size (file_session ?dir)"
    "open_err ?sl = MZ_OK" "\<not> malloc_fails heap0"
    "slot_read ?sl 0 (int32_cast (uncompressed_size (slot_info ?sl))) = ReadBytes [1, 2, 3]"
    "bytes_read (ReadBytes [1, 2, 3]) < uncompressed_size (slot_info ?sl)"
    by (simp_all add: file_session_eval reader_of_def plain_slot_def heap0_def slot_read_def
        int32_cast_def MZ_OK_def)
  have v: "uncompressed_size (slot_info ?sl) = 10"
    "locate_from ?dir 0 ''a.txt'' = (MZ_OK, 1)"
    "slot_read ?sl 0 (int32_cast 10) = ReadBytes [1, 2, 3]"
    by (simp_all add: plain_slot_def slot_read_def int32_cast_def MZ_OK_def)
  from read_returns_codec_count[OF h] h(1) v
  show ?thesis by simp
qed

subsection \<open>Directory walks\<close>

lemma walked_simps [simp]:
  "walked [] = []"
  "walked (sl # rest) = (if move_err sl = MZ_OK then sl # walked rest else [])"
  by (simp_all add: walked_def)

lemma walk_end_simps [simp]:
  "walk_end [] = MZ_END_OF_LIST"
  "walk_end (sl # rest) = (if move_err sl = MZ_OK then walk_end rest else move_err sl)"
  by (simp_all add: walk_end_def)

lemma walk_end_not_OK: "walk_end slots \<noteq> MZ_OK"
  by (induction slots) (simp_all add: MZ_OK_def MZ_END_OF_LIST_def)

lemma cursor_code_drop:
  "c < length slots \<Longrightarrow> drop c slots = slots ! c # drop (Suc c) slots"
  by (simp add: Cons_nth_drop_Suc)

lemma goto_next_eq:
  "mz_zip_reader_goto_next_entry rd =
     (cursor_code (rd_slots rd) (Suc (rd_cursor rd)),
      rd\<lparr>rd_cursor := Suc (rd_cursor rd), rd_calls := rd_calls rd @ [R_goto_next_entry]\<rparr>)"
  by (simp add: mz_zip_reader_goto_next_entry_def rd_log_def)

lemma goto_first_eq:
  "mz_zip_reader_goto_first_entry rd =
     (cursor_code (rd_slots rd) 0,
      rd\<lparr>rd_cursor := 0, rd_calls := rd_calls rd @ [R_goto_first_entry]\<rparr>)"
  by (simp add: mz_zip_reader_goto_first_entry_def rd_log_def)

lemma count_loop_fst:
  "fst (count_loop rd (cursor_code (rd_slots rd) (rd_cursor rd)) c)
     = c + int (length (walked (drop (rd_cursor rd) (rd_slots rd))))"
proof (induction "length (rd_slots rd) - rd_cursor rd" arbitrary: rd c)
  case 0
  then have "cursor_code (rd_slots rd) (rd_cursor rd) = MZ_END_OF_LIST"
    by (simp add: cursor_code_def)
  then show ?case using 0
    by (subst count_loop.simps) (simp add: MZ_OK_def MZ_END_OF_LIST_def)
next
  case (Suc n)
  then have lt: "rd_cursor rd < length (rd_slots rd)" by simp
  let ?sl = "rd_slots rd ! rd_cursor rd"
  have code: "cursor_code (rd_slots rd) (rd_cursor rd) = move_err ?sl"
    using lt by (simp add: cursor_code_def)
  show ?case
  proof (cases "move_err ?sl = MZ_OK")
    case False
    then show ?thesis using code lt
      by (subst count_loop.simps) (simp add: cursor_code_drop)
  next
    case True
    let ?rd2 = "rd\<lparr>rd_cursor := Suc (rd_cursor rd), rd_calls := rd_calls rd @ [R_goto_next_entry]\<rparr>"
    have "n = length (rd_slots ?rd2) - rd_cursor ?rd2" using Suc.hyps(2) by simp
    from Suc.hyps(1)[OF this, of "c + 1"]
    have "fst (count_loop ?rd2 (cursor_code (rd_slots rd) (Suc (rd_cursor rd))) (c + 1))
        = c + 1 + int (length (walked (drop (Suc (rd_cursor rd)) (rd_slots rd))))"
      by simp
    then show ?thesis using True code lt
      by (subst count_loop.simps) (simp add: goto_next_eq cursor_code_drop)
  qed
qed

lemma count_eval:
  assumes "checkOpenUnlocked s False = None" "reader s = Some rd"
  shows "fst (QoreZipFile_count s) = Inr (int (length (walked (rd_slots rd))))"
proof -
  let ?rd0 = "rd\<lparr>rd_cursor := 0, rd_calls := rd_calls rd @ [R_goto_first_entry]\<rparr>"
  have "fst (count_loop ?rd0 (cursor_code (rd_slots ?rd0) (rd_cursor ?rd0)) 0)
      = int (length (walked (rd_slots rd)))"
    by (subst count_loop_fst) simp
  then show ?thesis using assms
    by (simp add: QoreZipFile_count_def goto_first_eq case_prod_beta)
qed


lemma get_info_eq:
  "rd_cursor rd < length (rd_slots rd) \<Longrightarrow>
   mz_zip_reader_entry_get_info rd =
     ((if info_err (rd_slots rd ! rd_cursor rd) = MZ_OK
       then Info (slot_info (rd_slots rd ! rd_cursor rd))
       else InfoError (info_err (rd_slots rd ! rd_cursor rd))),
      rd\<lparr>rd_calls := rd_calls rd @ [R_entry_get_info]\<rparr>)"
  by (simp add: mz_zip_reader_entry_get_info_def rd_log_def Let_def)

lemma entries_loop_stop:
  "cursor_code (rd_slots rd) (rd_cursor rd) \<noteq> MZ_OK \<Longrightarrow>
   entries_loop rd (cursor_code (rd_slots rd) (rd_cursor rd)) lst
     = (cursor_code (rd_slots rd) (rd_cursor rd), lst, rd)"
  by (subst entries_loop.simps) simp

lemma entries_loop_step:
  assumes "rd_cursor rd < length (rd_slots rd)"
    and "move_err (rd_slots rd ! rd_cursor rd) = MZ_OK"
  shows "entries_loop rd (cursor_code (rd_slots rd) (rd_cursor rd)) lst =
     (if info_err (rd_slots rd ! rd_cursor rd) = MZ_OK
      then entries_loop
             (rd\<lparr>rd_cursor := Suc (rd_cursor rd),
                  rd_calls := rd_calls rd @ [R_entry_get_info, R_goto_next_entry]\<rparr>)
             (cursor_code (rd_slots rd) (Suc (rd_cursor rd)))
             (lst @ [createEntryInfo (slot_info (rd_slots rd ! rd_cursor rd))])
      else (info_err (rd_slots rd ! rd_cursor rd), lst,
            rd\<lparr>rd_calls := rd_calls rd @ [R_entry_get_info]\<rparr>))"
  using assms
  by (subst entries_loop.simps) (simp add: cursor_code_def get_info_eq goto_next_eq)

lemma entries_loop_code:
  assumes "\<forall>sl \<in> set (walked (drop (rd_cursor rd) (rd_slots rd))). info_err sl \<noteq> MZ_END_OF_LIST"
    and "walk_end (drop (rd_cursor rd) (rd_slots rd)) \<noteq> MZ_END_OF_LIST"
  shows "fst (entries_loop rd (cursor_code (rd_slots rd) (rd_cursor rd)) lst) \<noteq> MZ_OK
       \<and> fst (entries_loop rd (cursor_code (rd_slots rd) (rd_cursor rd)) lst) \<noteq> MZ_END_OF_LIST
       \<and> ((\<forall>sl \<in> set (walked (drop (rd_cursor rd) (rd_slots rd))). info_err sl = MZ_OK) \<longrightarrow>
            fst (entries_loop rd (cursor_code (rd_slots rd) (rd_cursor rd)) lst)
              = walk_end (drop (rd_cursor rd) (rd_slots rd)))"
  using assms
proof (induction "length (rd_slots rd) - rd_cursor rd" arbitrary: rd lst)
  case 0
  then show ?case by simp
next
  case (Suc n)
  then have lt: "rd_cursor rd < length (rd_slots rd)" by simp
  let ?sl = "rd_slots rd ! rd_cursor rd"
  have dr: "drop (rd_cursor rd) (rd_slots rd) = ?sl # drop (Suc (rd_cursor rd)) (rd_slots rd)"
    using lt by (rule cursor_code_drop)
  have code: "cursor_code (rd_slots rd) (rd_cursor rd) = move_err ?sl"
    using lt by (simp add: cursor_code_def)
  show ?case
  proof (cases "move_err ?sl = MZ_OK")
    case False
    then show ?thesis using Suc.prems code dr entries_loop_stop[of rd lst] by simp
  next
    case True
    show ?thesis
    proof (cases "info_err ?sl = MZ_OK")
      case False
      then show ?thesis
        using Suc.prems True dr entries_loop_step[OF lt True, of lst] by simp
    next
      case ok: True
      let ?rd2 = "rd\<lparr>rd_cursor := Suc (rd_cursor rd),
                  rd_calls := rd_calls rd @ [R_entry_get_info, R_goto_next_entry]\<rparr>"
      have n: "n = length (rd_slots ?rd2) - rd_cursor ?rd2" using Suc.hyps(2) by simp
      have p1: "\<forall>sl \<in> set (walked (drop (rd_cursor ?rd2) (rd_slots ?rd2))). info_err sl \<noteq> MZ_END_OF_LIST"
        using Suc.prems(1) True dr by simp
      have p2: "walk_end (drop (rd_cursor ?rd2) (rd_slots ?rd2)) \<noteq> MZ_END_OF_LIST"
        using Suc.prems(2) True dr by simp
      from Suc.hyps(1)[OF n p1 p2, of "lst @ [createEntryInfo (slot_info ?sl)]"]
      show ?thesis
        using True ok dr entries_loop_step[OF lt True, of lst] by simp
    qed
  qed
qed

lemma entries_eval:
  assumes "checkOpenUnlocked s False = None" "reader s = Some rd"
    and "\<forall>sl \<in> set (walked (rd_slots rd)). info_err sl \<noteq> MZ_END_OF_LIST"
    and "walk_end (rd_slots rd) \<noteq> MZ_END_OF_LIST"
  shows "\<exists>e. fst (QoreZipFile_entries s) = Inl (EntriesWalkError e)
           \<and> ((\<forall>sl \<in> set (walked (rd_slots rd)). info_err sl = MZ_OK) \<longrightarrow> e = walk_end (rd_slots rd))"
proof -
  let ?rd0 = "rd\<lparr>rd_cursor := 0, rd_calls := rd_calls rd @ [R_goto_first_entry]\<rparr>"
  from entries_loop_code[of ?rd0 "[]"] assms(3,4)
  have "fst (entries_loop ?rd0 (cursor_code (rd_slots rd) 0) []) \<noteq> MZ_OK
       \<and> fst (entries_loop ?rd0 (cursor_code (rd_slots rd) 0) []) \<noteq> MZ_END_OF_LIST
       \<and> ((\<forall>sl \<in> set (walked (rd_slots rd)). info_err sl = MZ_OK) \<longrightarrow>
            fst (entries_loop ?rd0 (cursor_code (rd_slots rd) 0) []) = walk_end (rd_slots rd))"
    by simp
  then show ?thesis using assms(1,2)
    by (simp add: QoreZipFile_entries_def goto_first_eq case_prod_beta)
qed


lemma interrupted_dir_eval:
  "walked interrupted_dir = [plain_slot ''a.txt'' 3 [1, 2, 3]]"
  "walk_end interrupted_dir = -103"
  "length interrupted_dir = 3"
  by (simp_all add: interrupted_dir_def plain_slot_def MZ_OK_def)

text \<open>
  Claim C9. In a session open for reading whose directory walk ends with a cursor code
  other than the end-of-list marker, \<open>count\<close> raises nothing and returns the number of
  positions visited; \<open>entries\<close> raises its \<open>ZIP-ERROR\<close> (provided the info call never
  answers the end-of-list marker, which is a cursor code), with the cursor's code when
  every info call succeeded. There is an archive on which \<open>count\<close> returns less than
  the number of entries in the directory while \<open>entries\<close> raises.
\<close>

theorem count_succeeds_where_entries_fails:
  assumes "checkOpenUnlocked s False = None" and "reader s = Some rd"
    and "walk_end (rd_slots rd) \<noteq> MZ_END_OF_LIST"
  shows "fst (QoreZipFile_count s) = Inr (int (length (walked (rd_slots rd))))
    \<and> ((\<forall>sl \<in> set (walked (rd_slots rd)). info_err sl \<noteq> MZ_END_OF_LIST) \<longrightarrow>
         (\<exists>e. fst (QoreZipFile_entries s) = Inl (EntriesWalkError e)
              \<and> exception_code (EntriesWalkError e) = ''ZIP-ERROR''
              \<and> ((\<forall>sl \<in> set (walked (rd_slots rd)). info_err sl = MZ_OK)
                    \<longrightarrow> e = walk_end (rd_slots rd))))
    \<and> (\<exists>s' rd' n e. reader s' = Some rd' \<and> fst (QoreZipFile_count s') = Inr n
           \<and> n < int (length (rd_slots rd')) \<and> fst (QoreZipFile_entries s') = Inl (EntriesWalkError e))"
proof -
  let ?s = "file_session interrupted_dir"
  have c: "fst (QoreZipFile_count ?s) = Inr 1"
    using count_eval[OF file_session_eval(1,2), of interrupted_dir]
    by (simp add: reader_of_def interrupted_dir_eval)
  have e: "fst (QoreZipFile_entries ?s) = Inl (EntriesWalkError (-103))"
    using entries_eval[OF file_session_eval(1,2), of interrupted_dir]
    by (auto simp: reader_of_def interrupted_dir_eval plain_slot_def MZ_OK_def MZ_END_OF_LIST_def)
  have "reader ?s = Some (reader_of interrupted_dir) \<and> fst (QoreZipFile_count ?s) = Inr 1
      \<and> 1 < int (length (rd_slots (reader_of interrupted_dir)))
      \<and> fst (QoreZipFile_entries ?s) = Inl (EntriesWalkError (-103))"
    using c e by (simp add: file_session_eval reader_of_def interrupted_dir_eval)
  then have ex: "\<exists>s' rd' n e. reader s' = Some rd' \<and> fst (QoreZipFile_count s') = Inr n
           \<and> n < int (length (rd_slots rd')) \<and> fst (QoreZipFile_entries s') = Inl (EntriesWalkError e)"
    by blast
  have cnt: "fst (QoreZipFile_count s) = Inr (int (length (walked (rd_slots rd))))"
    by (rule count_eval[OF assms(1,2)])
  have ent: "(\<forall>sl \<in> set (walked (rd_slots rd)). info_err sl \<noteq> MZ_END_OF_LIST) \<longrightarrow>
         (\<exists>e. fst (QoreZipFile_entries s) = Inl (EntriesWalkError e)
              \<and> exception_code (EntriesWalkError e) = ''ZIP-ERROR''
              \<and> ((\<forall>sl \<in> set (walked (rd_slots rd)). info_err sl = MZ_OK)
                    \<longrightarrow> e = walk_end (rd_slots rd)))"
    using entries_eval[OF assms(1,2) _ assms(3)] by simp
  from cnt ent ex show ?thesis by (intro conjI)
qed

theorem count_succeeds_where_entries_fails_witness:
  "checkOpenUnlocked (file_session interrupted_dir) False = None
   \<and> reader (file_session interrupted_dir) = Some (reader_of interrupted_dir)
   \<and> walk_end (rd_slots (reader_of interrupted_dir)) \<noteq> MZ_END_OF_LIST
   \<and> list_all (\<lambda>sl. info_err sl = MZ_OK) (walked (rd_slots (reader_of interrupted_dir)))
   \<and> fst (QoreZipFile_count (file_session interrupted_dir)) = Inr 1
   \<and> length (rd_slots (reader_of interrupted_dir)) = 3
   \<and> fst (QoreZipFile_entries (file_session interrupted_dir)) = Inl (EntriesWalkError (-103))"
proof -
  have w: "walk_end (rd_slots (reader_of interrupted_dir)) \<noteq> MZ_END_OF_LIST"
    by (simp add: reader_of_def interrupted_dir_eval MZ_END_OF_LIST_def)
  have i: "\<forall>sl \<in> set (walked (rd_slots (reader_of interrupted_dir))). info_err sl = MZ_OK"
    by (simp add: reader_of_def interrupted_dir_eval plain_slot_def)
  have ne: "\<forall>sl \<in> set (walked (rd_slots (reader_of interrupted_dir))). info_err sl \<noteq> MZ_END_OF_LIST"
    using i by (simp add: MZ_OK_def MZ_END_OF_LIST_def)
  from count_succeeds_where_entries_fails[OF file_session_eval(1,2) w] i ne
  have "fst (QoreZipFile_count (file_session interrupted_dir))
          = Inr (int (length (walked (rd_slots (reader_of interrupted_dir)))))"
    and "\<exists>e. fst (QoreZipFile_entries (file_session interrupted_dir)) = Inl (EntriesWalkError e)
          \<and> e = walk_end (rd_slots (reader_of interrupted_dir))"
    by blast+
  then show ?thesis
    using w i
    by (simp add: file_session_eval list_all_iff) (simp add: reader_of_def interrupted_dir_eval)
qed

subsection \<open>Extraction\<close>

lemma validate_loop_stop:
  "cursor_code (rd_slots rd) (rd_cursor rd) \<noteq> MZ_OK \<Longrightarrow>
   validate_loop rd (cursor_code (rd_slots rd) (rd_cursor rd)) dest = (None, rd)"
  by (subst validate_loop.simps) simp

lemma validate_loop_step:
  assumes "rd_cursor rd < length (rd_slots rd)"
    and "move_err (rd_slots rd ! rd_cursor rd) = MZ_OK"
  shows "validate_loop rd (cursor_code (rd_slots rd) (rd_cursor rd)) dest =
     (case (if info_err (rd_slots rd ! rd_cursor rd) = MZ_OK
            then validateExtractPath (Some (filename (slot_info (rd_slots rd ! rd_cursor rd)))) dest
            else None) of
        Some x \<Rightarrow> (Some x, rd\<lparr>rd_calls := rd_calls rd @ [R_entry_get_info]\<rparr>)
      | None \<Rightarrow>
          validate_loop
             (rd\<lparr>rd_cursor := Suc (rd_cursor rd),
                  rd_calls := rd_calls rd @ [R_entry_get_info, R_goto_next_entry]\<rparr>)
             (cursor_code (rd_slots rd) (Suc (rd_cursor rd))) dest)"
  using assms
  by (subst validate_loop.simps)
     (simp add: cursor_code_def get_info_eq goto_next_eq split: option.splits)

lemma names_accepted_simps:
  "names_accepted [] dest"
  "names_accepted (sl # rest) dest \<longleftrightarrow>
     (move_err sl = MZ_OK \<longrightarrow>
        (info_err sl = MZ_OK \<longrightarrow> validateExtractPath (Some (filename (slot_info sl))) dest = None)
        \<and> names_accepted rest dest)"
  by (auto simp: names_accepted_def)

lemma names_accepted_clean:
  "clean_dir slots \<Longrightarrow>
     names_accepted slots dest \<longleftrightarrow>
       list_all (\<lambda>sl. validateExtractPath (Some (filename (slot_info sl))) dest = None) slots"
  by (induction slots) (simp_all add: names_accepted_simps clean_dir_def)

lemma validate_loop_result:
  "\<exists>xs. rd_calls (snd (validate_loop rd (cursor_code (rd_slots rd) (rd_cursor rd)) dest))
          = rd_calls rd @ xs
       \<and> set xs \<subseteq> walk_calls
       \<and> rd_save_all_err (snd (validate_loop rd (cursor_code (rd_slots rd) (rd_cursor rd)) dest))
           = rd_save_all_err rd
       \<and> (fst (validate_loop rd (cursor_code (rd_slots rd) (rd_cursor rd)) dest) = None
            \<longleftrightarrow> names_accepted (drop (rd_cursor rd) (rd_slots rd)) dest)
       \<and> (\<forall>e. fst (validate_loop rd (cursor_code (rd_slots rd) (rd_cursor rd)) dest) = Some e
            \<longrightarrow> exception_code e = ''ZIP-SECURITY-ERROR'')"
proof (induction "length (rd_slots rd) - rd_cursor rd" arbitrary: rd)
  case 0
  then have "cursor_code (rd_slots rd) (rd_cursor rd) \<noteq> MZ_OK"
    by (simp add: cursor_code_def MZ_OK_def MZ_END_OF_LIST_def)
  from validate_loop_stop[OF this, of dest] 0 show ?case
    by (simp add: names_accepted_simps)
next
  case (Suc n)
  then have lt: "rd_cursor rd < length (rd_slots rd)" by simp
  let ?sl = "rd_slots rd ! rd_cursor rd"
  have dr: "drop (rd_cursor rd) (rd_slots rd) = ?sl # drop (Suc (rd_cursor rd)) (rd_slots rd)"
    using lt by (rule cursor_code_drop)
  have code: "cursor_code (rd_slots rd) (rd_cursor rd) = move_err ?sl"
    using lt by (simp add: cursor_code_def)
  show ?case
  proof (cases "move_err ?sl = MZ_OK")
    case False
    then have "cursor_code (rd_slots rd) (rd_cursor rd) \<noteq> MZ_OK" using code by simp
    from validate_loop_stop[OF this, of dest] False dr show ?thesis
      by (simp add: names_accepted_simps)
  next
    case True
    let ?v = "if info_err ?sl = MZ_OK
              then validateExtractPath (Some (filename (slot_info ?sl))) dest else None"
    show ?thesis
    proof (cases ?v)
      case (Some x)
      then have sec: "exception_code x = ''ZIP-SECURITY-ERROR''"
        by (auto split: if_splits dest: validateExtractPath_security)
      have "validate_loop rd (cursor_code (rd_slots rd) (rd_cursor rd)) dest
          = (Some x, rd\<lparr>rd_calls := rd_calls rd @ [R_entry_get_info]\<rparr>)"
        using validate_loop_step[OF lt True, of dest] Some by simp
      moreover have "\<not> names_accepted (drop (rd_cursor rd) (rd_slots rd)) dest"
        using Some True dr by (auto simp: names_accepted_simps split: if_splits)
      ultimately show ?thesis using sec
        by (simp add: walk_calls_def)
    next
      case None
      let ?rd2 = "rd\<lparr>rd_cursor := Suc (rd_cursor rd),
                  rd_calls := rd_calls rd @ [R_entry_get_info, R_goto_next_entry]\<rparr>"
      let ?R = "validate_loop ?rd2 (cursor_code (rd_slots rd) (Suc (rd_cursor rd))) dest"
      have n: "n = length (rd_slots ?rd2) - rd_cursor ?rd2" using Suc.hyps(2) by simp
      have eq: "validate_loop rd (cursor_code (rd_slots rd) (rd_cursor rd)) dest = ?R"
        using validate_loop_step[OF lt True, of dest] None by simp
      from Suc.hyps(1)[OF n] obtain xs where
        xs: "rd_calls (snd ?R) = (rd_calls rd @ [R_entry_get_info, R_goto_next_entry]) @ xs"
          "set xs \<subseteq> walk_calls"
          "rd_save_all_err (snd ?R) = rd_save_all_err rd"
          "fst ?R = None \<longleftrightarrow> names_accepted (drop (Suc (rd_cursor rd)) (rd_slots rd)) dest"
          "\<forall>e. fst ?R = Some e \<longrightarrow> exception_code e = ''ZIP-SECURITY-ERROR''"
        by auto
      have acc: "names_accepted (drop (rd_cursor rd) (rd_slots rd)) dest
          \<longleftrightarrow> names_accepted (drop (Suc (rd_cursor rd)) (rd_slots rd)) dest"
        using None True by (subst dr) (auto simp: names_accepted_simps split: if_splits)
      have a: "rd_calls (snd ?R) = rd_calls rd @ ([R_entry_get_info, R_goto_next_entry] @ xs)"
        using xs(1) by simp
      have b: "set ([R_entry_get_info, R_goto_next_entry] @ xs) \<subseteq> walk_calls"
        using xs(2) by (simp add: walk_calls_def)
      show ?thesis unfolding eq acc
        by (rule exI[of _ "[R_entry_get_info, R_goto_next_entry] @ xs"], intro conjI)
           (fact a, fact b, fact xs(3), fact xs(4), fact xs(5))
    qed
  qed
qed


text \<open>
  What the validation walk of \<open>extractAll\<close> covers. In a session open for reading,
  \<open>extractAll\<close> validates the name of every entry its walk visits and the codec
  describes; in a directory the codec reads without error these are all the entries.
  If the validator rejects one of them, \<open>extractAll\<close> raises a security exception and
  returns having made only walk calls on the codec: no password is set and the bulk
  extraction is never called. If it accepts them all, the bulk extraction is called
  once, after the walk and the optional password, whatever code ended the walk.
\<close>

lemma extractAll_validates_walked_entries:
  assumes "checkOpenUnlocked s False = None" and "reader s = Some rd"
  shows "(clean_dir (rd_slots rd) \<longrightarrow>
           (names_accepted (rd_slots rd) destPath \<longleftrightarrow>
              list_all (\<lambda>sl. validateExtractPath (Some (filename (slot_info sl))) destPath = None)
                (rd_slots rd)))
       \<and> (\<not> names_accepted (rd_slots rd) destPath \<longrightarrow>
           (\<exists>e rd' xs. QoreZipFile_extractAll s destPath opts_password
                          = (Some e, s\<lparr>reader := Some rd'\<rparr>)
               \<and> exception_code e = ''ZIP-SECURITY-ERROR''
               \<and> rd_calls rd' = rd_calls rd @ xs \<and> set xs \<subseteq> walk_calls))
       \<and> (names_accepted (rd_slots rd) destPath \<longrightarrow>
           (\<exists>rd' xs. snd (QoreZipFile_extractAll s destPath opts_password)
                          = s\<lparr>reader := Some rd'\<rparr>
               \<and> rd_calls rd' = rd_calls rd @ xs
                    @ (case opts_password of Some pw \<Rightarrow> [R_set_password pw] | None \<Rightarrow> [])
                    @ [R_save_all destPath]
               \<and> set xs \<subseteq> walk_calls
               \<and> fst (QoreZipFile_extractAll s destPath opts_password)
                    = (if rd_save_all_err rd = MZ_OK then None
                       else Some (ExtractAllFailed destPath (rd_save_all_err rd)))))"
proof -
  let ?rd0 = "rd\<lparr>rd_cursor := 0, rd_calls := rd_calls rd @ [R_goto_first_entry]\<rparr>"
  let ?R = "validate_loop ?rd0 (cursor_code (rd_slots rd) 0) destPath"
  from validate_loop_result[of ?rd0 destPath] obtain ys where
    ys: "rd_calls (snd ?R) = (rd_calls rd @ [R_goto_first_entry]) @ ys"
      "set ys \<subseteq> walk_calls"
      "rd_save_all_err (snd ?R) = rd_save_all_err rd"
      "fst ?R = None \<longleftrightarrow> names_accepted (rd_slots rd) destPath"
      "\<forall>e. fst ?R = Some e \<longrightarrow> exception_code e = ''ZIP-SECURITY-ERROR''"
    by auto
  have a: "rd_calls (snd ?R) = rd_calls rd @ (R_goto_first_entry # ys)"
    using ys(1) by simp
  have b: "set (R_goto_first_entry # ys) \<subseteq> walk_calls"
    using ys(2) by (simp add: walk_calls_def)
  have unf: "QoreZipFile_extractAll s destPath opts_password =
      (case ?R of
         (Some x, rd1) \<Rightarrow> (Some x, s\<lparr>reader := Some rd1\<rparr>)
       | (None, rd1) \<Rightarrow>
           (let rd2 = (case opts_password of
                         Some pw \<Rightarrow> mz_zip_reader_set_password rd1 pw
                       | None \<Rightarrow> rd1)
            in case mz_zip_reader_save_all rd2 destPath of
                 (err, rd3) \<Rightarrow>
                   if err \<noteq> MZ_OK
                     then (Some (ExtractAllFailed destPath err), s\<lparr>reader := Some rd3\<rparr>)
                   else (None, s\<lparr>reader := Some rd3\<rparr>)))"
    using assms by (simp add: QoreZipFile_extractAll_def goto_first_eq)
  have cl: "clean_dir (rd_slots rd) \<longrightarrow>
           (names_accepted (rd_slots rd) destPath \<longleftrightarrow>
              list_all (\<lambda>sl. validateExtractPath (Some (filename (slot_info sl))) destPath = None)
                (rd_slots rd))"
    by (rule impI) (rule names_accepted_clean)
  show ?thesis
  proof (cases "fst ?R")
    case None
    then have acc: "names_accepted (rd_slots rd) destPath" using ys(4) by simp
    from None have R: "?R = (None, snd ?R)" by (simp add: prod_eq_iff)
    let ?pw = "case opts_password of Some pw \<Rightarrow> [R_set_password pw] | None \<Rightarrow> []"
    let ?rd3 = "(snd ?R)\<lparr>rd_calls := rd_calls (snd ?R) @ ?pw @ [R_save_all destPath]\<rparr>"
    have res: "QoreZipFile_extractAll s destPath opts_password =
        ((if rd_save_all_err rd = MZ_OK then None
          else Some (ExtractAllFailed destPath (rd_save_all_err rd))),
         s\<lparr>reader := Some ?rd3\<rparr>)"
      unfolding unf
      by (subst R)
         (simp add: mz_zip_reader_save_all_def mz_zip_reader_set_password_def rd_log_def ys(3)
            Let_def split: option.splits)
    have c: "rd_calls ?rd3 = rd_calls rd @ (R_goto_first_entry # ys) @ ?pw @ [R_save_all destPath]"
      using a by simp
    have "\<exists>rd' xs. snd (QoreZipFile_extractAll s destPath opts_password) = s\<lparr>reader := Some rd'\<rparr>
               \<and> rd_calls rd' = rd_calls rd @ xs @ ?pw @ [R_save_all destPath]
               \<and> set xs \<subseteq> walk_calls
               \<and> fst (QoreZipFile_extractAll s destPath opts_password)
                    = (if rd_save_all_err rd = MZ_OK then None
                       else Some (ExtractAllFailed destPath (rd_save_all_err rd)))"
      by (rule exI[of _ ?rd3], rule exI[of _ "R_goto_first_entry # ys"], intro conjI)
         (simp add: res, fact c, fact b, simp add: res)
    then show ?thesis using acc cl by simp
  next
    case (Some e)
    then have nacc: "\<not> names_accepted (rd_slots rd) destPath" using ys(4) by simp
    from Some have R: "?R = (Some e, snd ?R)" by (simp add: prod_eq_iff)
    have res: "QoreZipFile_extractAll s destPath opts_password
        = (Some e, s\<lparr>reader := Some (snd ?R)\<rparr>)"
      unfolding unf by (subst R) simp
    have sec: "exception_code e = ''ZIP-SECURITY-ERROR''" using ys(5) Some by simp
    have "\<exists>e rd' xs. QoreZipFile_extractAll s destPath opts_password
                          = (Some e, s\<lparr>reader := Some rd'\<rparr>)
               \<and> exception_code e = ''ZIP-SECURITY-ERROR''
               \<and> rd_calls rd' = rd_calls rd @ xs \<and> set xs \<subseteq> walk_calls"
      by (rule exI[of _ e], rule exI[of _ "snd ?R"], rule exI[of _ "R_goto_first_entry # ys"],
          intro conjI) (fact res, fact sec, fact a, fact b)
    then show ?thesis using nacc cl by simp
  qed
qed

lemma extractAll_hostile_dir_refused:
  "checkOpenUnlocked (file_session hostile_dir) False = None
   \<and> clean_dir (rd_slots (reader_of hostile_dir))
   \<and> \<not> names_accepted (rd_slots (reader_of hostile_dir)) ''/tmp/out''
   \<and> (\<exists>e rd' xs. QoreZipFile_extractAll (file_session hostile_dir) ''/tmp/out'' None
                      = (Some e, (file_session hostile_dir)\<lparr>reader := Some rd'\<rparr>)
          \<and> exception_code e = ''ZIP-SECURITY-ERROR''
          \<and> rd_calls rd' = xs \<and> set xs \<subseteq> walk_calls)
   \<and> R_save_all ''/tmp/out'' \<notin> walk_calls
   \<and> checkOpenUnlocked (file_session [plain_slot ''ok.txt'' 1 [7]]) False = None
   \<and> names_accepted (rd_slots (reader_of [plain_slot ''ok.txt'' 1 [7]])) ''/tmp/out''
   \<and> fst (QoreZipFile_extractAll (file_session [plain_slot ''ok.txt'' 1 [7]]) ''/tmp/out'' None)
       = None"
proof -
  have e: "validateExtractPath (Some ''../evil'') ''/tmp/out'' = Some (PathTraversal ''../evil'')"
    by code_simp
  have o: "validateExtractPath (Some ''ok.txt'') ''/tmp/out'' = None"
    by code_simp
  have h: "\<not> names_accepted (rd_slots (reader_of hostile_dir)) ''/tmp/out''"
    by (simp add: reader_of_def hostile_dir_def names_accepted_simps plain_slot_def e)
  have g: "names_accepted (rd_slots (reader_of [plain_slot ''ok.txt'' 1 [7]])) ''/tmp/out''"
    by (simp add: reader_of_def names_accepted_simps plain_slot_def o)
  have c: "rd_calls (reader_of hostile_dir) = []"
    "rd_save_all_err (reader_of [plain_slot ''ok.txt'' 1 [7]]) = MZ_OK"
    "clean_dir (rd_slots (reader_of hostile_dir))"
    by (simp_all add: reader_of_def clean_dir_def hostile_dir_def plain_slot_def)
  have w: "R_save_all ''/tmp/out'' \<notin> walk_calls"
    by (simp add: walk_calls_def)
  from extractAll_validates_walked_entries[OF file_session_eval(1,2),
         of hostile_dir "''/tmp/out''" None]
       extractAll_validates_walked_entries[OF file_session_eval(1,2),
         of "[plain_slot ''ok.txt'' 1 [7]]" "''/tmp/out''" None]
       h g c w file_session_eval(1)
  show ?thesis by auto
qed

text \<open>
  Claim C3 fails on an archive whose directory cannot be walked to its end. The cursor
  fails to reach the second position of \<open>hostile_tail_dir\<close> with code \<open>-103\<close>, and the
  validation loop of \<open>extractAll\<close> ends there without looking at that code: the name
  \<open>../evil\<close> behind it, which the validator rejects, is never validated, no security
  exception is raised, and the bulk extraction is called. On the same archive
  \<open>entries\<close>, whose loop is the same, tests the code that ended it and raises.
\<close>

theorem extractAll_misses_entry_after_cursor_error:
  "validateExtractPath (Some ''../evil'') ''/tmp/out'' = Some (PathTraversal ''../evil'')
   \<and> fst (QoreZipFile_extractAll (file_session hostile_tail_dir) ''/tmp/out'' None) = None
   \<and> map_option rd_calls
        (reader (snd (QoreZipFile_extractAll (file_session hostile_tail_dir) ''/tmp/out'' None)))
       = Some [R_goto_first_entry, R_entry_get_info, R_goto_next_entry,
               R_save_all ''/tmp/out'']
   \<and> fst (QoreZipFile_entries (file_session hostile_tail_dir))
       = Inl (EntriesWalkError (- 103))"
  by code_simp

subsection \<open>Input stream\<close>

lemma byte_of_peek: "0 \<le> k \<Longrightarrow> k \<le> 255 \<Longrightarrow> uint (word_of_int k :: byte) = k"
  by (simp add: uint_word_of_int_eq take_bit_int_eq_self)

lemma peek_of_byte: "0 \<le> uint (b :: byte) \<and> uint b \<le> 255 \<and> (word_of_int (uint b) :: byte) = b"
proof -
  have "uint b < 2 ^ 8" using uint_bounded[of b] by simp
  then show ?thesis by simp
qed

lemma entry_read_eq:
  assumes "rd_cursor rd < length (rd_slots rd)" and "1 \<le> len"
    and "\<not> read_err (rd_slots rd ! rd_cursor rd) < 0"
  shows "mz_zip_reader_entry_read rd len =
     (ReadBytes (take (min (nat len) (read_chunk (rd_slots rd ! rd_cursor rd))) (unread rd)),
      rd\<lparr>rd_offset := rd_offset rd
              + length (take (min (nat len) (read_chunk (rd_slots rd ! rd_cursor rd))) (unread rd)),
           rd_calls := rd_calls rd @ [R_entry_read len]\<rparr>)"
  using assms
  by (simp add: mz_zip_reader_entry_read_def slot_read_def unread_def rd_log_def)

lemma entry_read_error:
  assumes "rd_cursor rd < length (rd_slots rd)"
    and "read_err (rd_slots rd ! rd_cursor rd) < 0"
  shows "fst (mz_zip_reader_entry_read rd len) = ReadError (read_err (rd_slots rd ! rd_cursor rd))"
  using assms
  by (simp add: mz_zip_reader_entry_read_def slot_read_def)

lemma unread_after:
  "unread (rd\<lparr>rd_offset := rd_offset rd + k, rd_calls := c\<rparr>) = drop k (unread rd)"
  by (simp add: unread_def add.commute)

lemma take_empty_iff: "0 < k \<Longrightarrow> take k xs = [] \<longleftrightarrow> xs = []"
  by (cases xs) auto


lemma read_at_eof:
  "zis_entry_open st \<Longrightarrow> zis_eof st \<Longrightarrow> ZipInputStream_read st rd limit = (Inr (0, []), st, rd)"
  by (simp add: ZipInputStream_read_def)

lemma peek_at_eof:
  "zis_entry_open st \<Longrightarrow> zis_eof st \<Longrightarrow> ZipInputStream_peek st rd = (Inr (- 1), st, rd)"
  by (simp add: ZipInputStream_peek_def)

text \<open>A codec read on behalf of the stream, when it raises nothing.\<close>

lemma codec_read_cases:
  assumes "rd_cursor rd < length (rd_slots rd)" and "0 < read_chunk (rd_slots rd ! rd_cursor rd)"
    and "1 \<le> len"
    and "mz_zip_reader_entry_read rd len = (ReadBytes bs, rd1)"
  shows "unread rd = bs @ unread rd1 \<and> (bs = [] \<longleftrightarrow> unread rd = [])
       \<and> rd_cursor rd1 = rd_cursor rd \<and> rd_slots rd1 = rd_slots rd
       \<and> length bs \<le> nat len"
proof (cases "read_err (rd_slots rd ! rd_cursor rd) < 0")
  case True
  from entry_read_error[OF assms(1) True, of len] assms(4) show ?thesis by simp
next
  case False
  let ?k = "min (nat len) (read_chunk (rd_slots rd ! rd_cursor rd))"
  have k: "0 < ?k" using assms(2,3) by simp
  from entry_read_eq[OF assms(1,3) False] assms(4)
  have bs: "bs = take ?k (unread rd)"
    and rd1: "rd1 = rd\<lparr>rd_offset := rd_offset rd + length (take ?k (unread rd)),
                       rd_calls := rd_calls rd @ [R_entry_read len]\<rparr>"
    by simp_all
  have "unread rd1 = drop (length bs) (unread rd)"
    unfolding rd1 bs by (rule unread_after)
  moreover have "drop (length bs) (unread rd) = drop ?k (unread rd)"
    unfolding bs by (simp add: min_def)
  ultimately have "unread rd = bs @ unread rd1" unfolding bs by simp
  moreover have "bs = [] \<longleftrightarrow> unread rd = []" unfolding bs using k by (rule take_empty_iff)
  moreover have "length bs \<le> nat len" unfolding bs by simp
  ultimately show ?thesis unfolding rd1 by simp
qed

text \<open>The codec stores nothing for a length that is not positive.\<close>

lemma entry_read_nonpos:
  assumes "len \<le> 0" and "mz_zip_reader_entry_read rd len = (ReadBytes bs, rd1)"
  shows False
  using assms
  by (auto simp: mz_zip_reader_entry_read_def slot_read_def split: if_splits read_result.splits)

lemma read_step:
  assumes inv: "zis_inv st rd" and lim: "1 \<le> limit"
    and r: "ZipInputStream_read st rd limit = (Inr (n, bs), st', rd')"
  shows "n = int (length bs) \<and> pending st rd = bs @ pending st' rd'
       \<and> (bs = [] \<longleftrightarrow> pending st rd = []) \<and> zis_inv st' rd' \<and> (bs = [] \<longrightarrow> zis_eof st')"
proof -
  from inv have op: "zis_entry_open st" and lt: "rd_cursor rd < length (rd_slots rd)"
    and ch: "0 < read_chunk (rd_slots rd ! rd_cursor rd)"
    and pk: "zis_peek_byte st = -2 \<or> (0 \<le> zis_peek_byte st \<and> zis_peek_byte st \<le> 255)"
    and ep: "zis_eof st \<longrightarrow> pending st rd = []"
    by (simp_all add: zis_inv_def)
  show ?thesis
  proof (cases "zis_eof st")
    case True
    with r op have "n = 0" "bs = []" "st' = st" "rd' = rd" by (simp_all add: read_at_eof)
    with True ep inv show ?thesis by simp
  next
    case ne: False
    show ?thesis
    proof (cases "0 \<le> zis_peek_byte st")
      case peeked: True
      let ?b = "word_of_int (zis_peek_byte st) :: byte"
      let ?st1 = "st\<lparr>zis_peek_byte := -2\<rparr>"
      have pb: "peek_buffer st = [?b]" "peek_buffer ?st1 = []"
        using peeked by (simp_all add: peek_buffer_def)
      show ?thesis
      proof (cases "limit = 1")
        case True
        with r op ne peeked have "n = 1" "bs = [?b]" "st' = ?st1" "rd' = rd"
          by (simp_all add: ZipInputStream_read_def Let_def)
        then show ?thesis using pb inv ne
          by (simp add: pending_def zis_inv_def peek_buffer_def)
      next
        case False
        let ?len = "int32_cast (limit - 1)"
        obtain rr rd1 where cr: "mz_zip_reader_entry_read rd ?len = (rr, rd1)"
          by (cases "mz_zip_reader_entry_read rd ?len")
        have unf: "ZipInputStream_read st rd limit =
            (case rr of
               ReadError e \<Rightarrow> (Inl (StreamReadError (zis_entry_name st) e), ?st1, rd1)
             | ReadBytes bs1 \<Rightarrow>
                 (Inr (1 + int (length bs1), ?b # bs1),
                  (if bs1 = [] then ?st1\<lparr>zis_eof := True\<rparr> else ?st1), rd1))"
          using op ne peeked False lim cr
          by (simp add: ZipInputStream_read_def Let_def split: read_result.splits)
        from r obtain bs1 where
          rr: "rr = ReadBytes bs1" and res: "n = 1 + int (length bs1)" "bs = ?b # bs1"
            "st' = (if bs1 = [] then ?st1\<lparr>zis_eof := True\<rparr> else ?st1)" "rd' = rd1"
          unfolding unf by (cases rr) simp_all
        have l1: "1 \<le> ?len"
          using entry_read_nonpos[OF _ cr[unfolded rr]] by fastforce
        from codec_read_cases[OF lt ch l1 cr[unfolded rr]]
        have c: "unread rd = bs1 @ unread rd1" "bs1 = [] \<longleftrightarrow> unread rd = []"
            "rd_cursor rd1 = rd_cursor rd" "rd_slots rd1 = rd_slots rd"
          by blast+
        have "peek_buffer st' = []" using res(3) pb(2) by (simp add: peek_buffer_def)
        then have p': "pending st' rd' = unread rd1" by (simp add: pending_def res(4))
        have p: "pending st rd = ?b # bs1 @ unread rd1" using pb(1) c(1) by (simp add: pending_def)
        have i': "zis_inv st' rd'"
          using op lt ch c res(3,4) p' ne by (auto simp: zis_inv_def)
        show ?thesis using res(1,2) p p' i' by simp
      qed
    next
      case np: False
      have pb: "peek_buffer st = []" using np by (simp add: peek_buffer_def)
      let ?len = "int32_cast limit"
      obtain rr rd1 where cr: "mz_zip_reader_entry_read rd ?len = (rr, rd1)"
        by (cases "mz_zip_reader_entry_read rd ?len")
      have unf: "ZipInputStream_read st rd limit =
          (case rr of
             ReadError e \<Rightarrow> (Inl (StreamReadError (zis_entry_name st) e), st, rd1)
           | ReadBytes bs1 \<Rightarrow>
               (Inr (int (length bs1), bs1),
                (if bs1 = [] then st\<lparr>zis_eof := True\<rparr> else st), rd1))"
        using op ne np cr
        by (simp add: ZipInputStream_read_def Let_def split: read_result.splits)
      show ?thesis
      proof (cases rr)
        case (ReadError e)
        with r show ?thesis unfolding unf by simp
      next
        case rr: (ReadBytes bs1)
        have res: "n = int (length bs1)" "bs = bs1"
          "st' = (if bs1 = [] then st\<lparr>zis_eof := True\<rparr> else st)" "rd' = rd1"
          using r unfolding unf rr by (auto split del: if_split)
        have l1: "1 \<le> ?len"
          using entry_read_nonpos[OF _ cr[unfolded rr]] by fastforce
        from codec_read_cases[OF lt ch l1 cr[unfolded rr]]
        have c: "unread rd = bs1 @ unread rd1" "bs1 = [] \<longleftrightarrow> unread rd = []"
            "rd_cursor rd1 = rd_cursor rd" "rd_slots rd1 = rd_slots rd"
          by blast+
        have "peek_buffer st' = []" using np by (simp add: peek_buffer_def res(3))
        then have p': "pending st' rd' = unread rd1" by (simp add: pending_def res(4))
        have p: "pending st rd = bs1 @ unread rd1" using pb c(1) by (simp add: pending_def)
        have i': "zis_inv st' rd'"
          using op lt ch pk c res(3,4) p' ne by (auto simp: zis_inv_def)
        have e': "bs1 = [] \<longrightarrow> zis_eof st'" by (simp add: res(3))
        show ?thesis unfolding res(1,2) p p' using i' c(1,2) e' by simp
      qed
    qed
  qed
qed


lemma peek_step:
  assumes inv: "zis_inv st rd"
    and p: "ZipInputStream_peek st rd = (Inr v, st', rd')"
  shows "pending st' rd' = pending st rd
       \<and> v = (case pending st rd of [] \<Rightarrow> - 1 | b # _ \<Rightarrow> uint b)
       \<and> zis_inv st' rd' \<and> (v = - 1 \<longrightarrow> zis_eof st')"
proof -
  from inv have op: "zis_entry_open st" and lt: "rd_cursor rd < length (rd_slots rd)"
    and ch: "0 < read_chunk (rd_slots rd ! rd_cursor rd)"
    and pk: "zis_peek_byte st = -2 \<or> (0 \<le> zis_peek_byte st \<and> zis_peek_byte st \<le> 255)"
    and ep: "zis_eof st \<longrightarrow> pending st rd = []"
    by (simp_all add: zis_inv_def)
  show ?thesis
  proof (cases "zis_eof st")
    case True
    with p op have "v = - 1" "st' = st" "rd' = rd" by (simp_all add: peek_at_eof)
    with True ep inv show ?thesis by simp
  next
    case ne: False
    show ?thesis
    proof (cases "0 \<le> zis_peek_byte st")
      case peeked: True
      with p op ne have res: "v = zis_peek_byte st" "st' = st" "rd' = rd"
        by (auto simp: ZipInputStream_peek_def)
      have "pending st rd = word_of_int (zis_peek_byte st) # unread rd"
        using peeked by (simp add: pending_def peek_buffer_def)
      moreover have "uint (word_of_int (zis_peek_byte st) :: byte) = zis_peek_byte st"
        using pk peeked by (auto intro: byte_of_peek)
      ultimately show ?thesis using res inv peeked by simp
    next
      case np: False
      have pb: "peek_buffer st = []" using np by (simp add: peek_buffer_def)
      obtain rr rd1 where cr: "mz_zip_reader_entry_read rd 1 = (rr, rd1)"
        by (cases "mz_zip_reader_entry_read rd 1")
      have unf: "ZipInputStream_peek st rd =
          (case rr of
             ReadError e \<Rightarrow> (Inl (StreamPeekError (zis_entry_name st) e), st, rd1)
           | ReadBytes [] \<Rightarrow> (Inr (- 1), st\<lparr>zis_eof := True\<rparr>, rd1)
           | ReadBytes (b # x) \<Rightarrow> (Inr (uint b), st\<lparr>zis_peek_byte := uint b\<rparr>, rd1))"
        using op ne np cr
        by (simp add: ZipInputStream_peek_def split: read_result.splits list.splits)
      show ?thesis
      proof (cases rr)
        case (ReadError e)
        with p show ?thesis unfolding unf by simp
      next
        case rr: (ReadBytes bs1)
        have one: "(1::int) \<le> 1" by simp
        from codec_read_cases[OF lt ch one cr[unfolded rr]]
        have c: "unread rd = bs1 @ unread rd1" "bs1 = [] \<longleftrightarrow> unread rd = []"
            "rd_cursor rd1 = rd_cursor rd" "rd_slots rd1 = rd_slots rd" "length bs1 \<le> nat 1"
          by blast+
        show ?thesis
        proof (cases bs1)
          case Nil
          with p have res: "v = - 1" "st' = st\<lparr>zis_eof := True\<rparr>" "rd' = rd1"
            unfolding unf rr by auto
          have e: "unread rd = []" "unread rd1 = []" using c(1,2) Nil by simp_all
          have p0: "pending st rd = []" "pending st' rd' = []"
            using e pb np by (simp_all add: pending_def res peek_buffer_def)
          have "zis_inv st' rd'"
            using op lt ch pk c(3,4) p0(2) by (simp add: zis_inv_def res)
          then show ?thesis using res p0 by simp
        next
          case (Cons b x)
          with c(5) have x: "x = []" by simp
          from p Cons have res: "v = uint b" "st' = st\<lparr>zis_peek_byte := uint b\<rparr>" "rd' = rd1"
            unfolding unf rr by auto
          have pd: "pending st rd = b # unread rd1"
            using pb c(1) Cons x by (simp add: pending_def)
          have pd': "pending st' rd' = b # unread rd1"
            using peek_of_byte[of b] by (simp add: pending_def peek_buffer_def res)
          have "zis_inv st' rd'"
            using op lt ch c(3,4) ne pd' peek_of_byte[of b] by (simp add: zis_inv_def res)
          moreover have "v \<noteq> - 1" unfolding res(1) using uint_nonnegative[of b] by linarith
          ultimately show ?thesis using res(1) pd pd' by simp
        qed
      qed
    qed
  qed
qed

lemma run_ops_length:
  "run_ops st rd ops = (Inr rs, st', rd') \<Longrightarrow> length rs = length ops"
proof (induction ops arbitrary: st rd rs)
  case Nil
  then show ?case by simp
next
  case (Cons op ops)
  then show ?case
    by (cases op) (auto split: prod.splits sum.splits)
qed

lemma run_ops_queue:
  assumes "zis_inv st rd" and "\<forall>op \<in> set ops. valid_op op"
    and "run_ops st rd ops = (Inr rs, st', rd')"
  shows "queue_results (pending st rd) rs
       \<and> pending st rd = delivered rs @ pending st' rd'
       \<and> zis_inv st' rd'
       \<and> (rs \<noteq> [] \<and> (last rs = Delivered 0 [] \<or> last rs = Peeked (- 1)) \<longrightarrow> zis_eof st')"
  using assms
proof (induction ops arbitrary: st rd rs)
  case Nil
  then show ?case by simp
next
  case (Cons op ops)
  show ?case
  proof (cases op)
    case (OpRead limit)
    with Cons.prems(2) have lim: "1 \<le> limit" by simp
    from Cons.prems(3) OpRead obtain n bs st1 rd1 rs1 where
      r: "ZipInputStream_read st rd limit = (Inr (n, bs), st1, rd1)"
      and run: "run_ops st1 rd1 ops = (Inr rs1, st', rd')"
      and rs: "rs = Delivered n bs # rs1"
      by (auto split: prod.splits sum.splits)
    from read_step[OF Cons.prems(1) lim r]
    have s: "n = int (length bs)" "pending st rd = bs @ pending st1 rd1"
        "bs = [] \<longleftrightarrow> pending st rd = []" "zis_inv st1 rd1" "bs = [] \<longrightarrow> zis_eof st1"
      by blast+
    have v2: "\<forall>op \<in> set ops. valid_op op" using Cons.prems(2) by simp
    from Cons.IH[OF s(4) v2 run]
    have ih: "queue_results (pending st1 rd1) rs1"
        "pending st1 rd1 = delivered rs1 @ pending st' rd'" "zis_inv st' rd'"
        "rs1 \<noteq> [] \<and> (last rs1 = Delivered 0 [] \<or> last rs1 = Peeked (- 1)) \<longrightarrow> zis_eof st'"
      by blast+
    have d: "drop (length bs) (pending st rd) = pending st1 rd1" using s(2) by simp
    have q: "queue_results (pending st rd) rs"
      unfolding rs queue_results.simps d using s(1,2,3) ih(1) by simp
    have l: "rs \<noteq> [] \<and> (last rs = Delivered 0 [] \<or> last rs = Peeked (- 1)) \<longrightarrow> zis_eof st'"
    proof (cases "rs1 = []")
      case True
      with run_ops_length[OF run] have "ops = []" by simp
      with run have "st' = st1" by simp
      then show ?thesis using True rs s(5) by simp
    next
      case False
      then show ?thesis using ih(4) rs by simp
    qed
    show ?thesis using q l ih(2,3) s(2) by (simp add: rs)
  next
    case OpPeek
    from Cons.prems(3) OpPeek obtain v st1 rd1 rs1 where
      r: "ZipInputStream_peek st rd = (Inr v, st1, rd1)"
      and run: "run_ops st1 rd1 ops = (Inr rs1, st', rd')"
      and rs: "rs = Peeked v # rs1"
      by (auto split: prod.splits sum.splits)
    from peek_step[OF Cons.prems(1) r]
    have s: "pending st1 rd1 = pending st rd"
        "v = (case pending st rd of [] \<Rightarrow> - 1 | b # _ \<Rightarrow> uint b)"
        "zis_inv st1 rd1" "v = - 1 \<longrightarrow> zis_eof st1"
      by blast+
    have v2: "\<forall>op \<in> set ops. valid_op op" using Cons.prems(2) by simp
    from Cons.IH[OF s(3) v2 run]
    have ih: "queue_results (pending st1 rd1) rs1"
        "pending st1 rd1 = delivered rs1 @ pending st' rd'" "zis_inv st' rd'"
        "rs1 \<noteq> [] \<and> (last rs1 = Delivered 0 [] \<or> last rs1 = Peeked (- 1)) \<longrightarrow> zis_eof st'"
      by blast+
    have q: "queue_results (pending st rd) rs"
      unfolding rs queue_results.simps using s(1,2) ih(1) by simp
    have l: "rs \<noteq> [] \<and> (last rs = Delivered 0 [] \<or> last rs = Peeked (- 1)) \<longrightarrow> zis_eof st'"
    proof (cases "rs1 = []")
      case True
      with run_ops_length[OF run] have "ops = []" by simp
      with run have "st' = st1" by simp
      then show ?thesis using True rs s(4) by simp
    next
      case False
      then show ?thesis using ih(4) rs by simp
    qed
    show ?thesis using q l ih(2,3) s(1) by (simp add: rs)
  qed
qed


lemma new_stream:
  assumes "rd_cursor rd0 < length (rd_slots rd0)"
    and "0 < read_chunk (rd_slots rd0 ! rd_cursor rd0)"
    and "ZipInputStream_new rd0 name = (None, st, rd)"
  shows "zis_inv st rd \<and> pending st rd = payload (rd_slots rd0 ! rd_cursor rd0)"
  using assms
  by (auto simp: ZipInputStream_new_def mz_zip_reader_entry_open_def rd_log_def zis_inv_def
      pending_def peek_buffer_def unread_def Let_def split: if_splits)

text \<open>
  Claim C6, as stated, fails. On the stream opened on the three-byte entry
  \<open>[1, 2, 3]\<close>, \<open>peek\<close> returns \<open>1\<close>; a \<open>read\<close> with a buffer of \<open>2^32 + 1\<close> bytes
  then takes the buffered byte, clears the look-ahead and asks the codec for
  \<open>static_cast<int32_t>(2^32) = 0\<close> bytes, which the codec refuses: \<open>read\<close> raises, and
  the reads that follow deliver \<open>[2, 3]\<close> and then the end of the data. The byte \<open>1\<close>
  was peeked and is never delivered. And a stream reads through the one reader of its
  session: when a second stream is opened on \<open>b.txt\<close> (bytes \<open>[7, 8]\<close>) after the
  \<open>peek\<close>, the next \<open>read\<close> of the first stream delivers \<open>[1, 7, 8]\<close>.
\<close>

theorem peeked_byte_dropped_counterexample:
  "fst (ZipInputStream_new sample_reader ''a.txt'') = None
   \<and> fst (run_from sample_stream [OpPeek]) = Inr [Peeked 1]
   \<and> fst (run_from sample_stream [OpPeek, OpRead 4294967297])
       = Inl (StreamReadError ''a.txt'' MZ_PARAM_ERROR)
   \<and> fst (run_from (snd (run_from sample_stream [OpPeek, OpRead 4294967297]))
             [OpRead 5, OpRead 5])
       = Inr [Delivered 2 [2, 3], Delivered 0 []]
   \<and> two_streams_run = Some (Inr 1, Inr (3, [1, 7, 8]))"
  by code_simp

text \<open>
  Claim C6, amended. Take a stream just opened on an entry whose data stream hands out
  at least one byte per call while data remain, and any interleaving of \<open>peek\<close> and
  \<open>read\<close> calls on it (each \<open>read\<close> with a buffer of at least one byte, and nothing
  else using the reader in between) in which no call raises.
  The answers are those of a plain queue holding the entry's bytes: a \<open>peek\<close> shows the
  first byte not yet delivered and removes nothing, a \<open>read\<close> delivers a non-empty front
  part of what is left and returns its length, or returns \<open>0\<close> when nothing is left. So
  the bytes delivered, followed by the buffered byte and what the codec still holds, are
  the entry's bytes in order, and a peeked byte is delivered by the next \<open>read\<close>, once.
  After a \<open>read\<close> that returned \<open>0\<close> or a \<open>peek\<close> that returned \<open>-1\<close> the end-of-data
  flag is set; once it is set, all of the entry has been delivered, and every further
  \<open>read\<close> returns \<open>0\<close> and every \<open>peek\<close> \<open>-1\<close> leaving the stream and the reader as
  they are, so without a codec call.
\<close>

theorem input_stream_delivers_entry_in_order:
  assumes "rd_cursor rd0 < length (rd_slots rd0)"
    and "0 < read_chunk (rd_slots rd0 ! rd_cursor rd0)"
    and "ZipInputStream_new rd0 name = (None, st0, rd1)"
    and "\<forall>op \<in> set ops. valid_op op"
    and "run_ops st0 rd1 ops = (Inr rs, st, rd)"
  shows "queue_results (payload (rd_slots rd0 ! rd_cursor rd0)) rs
    \<and> payload (rd_slots rd0 ! rd_cursor rd0) = delivered rs @ pending st rd
    \<and> (rs \<noteq> [] \<and> (last rs = Delivered 0 [] \<or> last rs = Peeked (- 1)) \<longrightarrow> zis_eof st)
    \<and> (zis_eof st \<longrightarrow>
          delivered rs = payload (rd_slots rd0 ! rd_cursor rd0)
          \<and> (\<forall>limit. ZipInputStream_read st rd limit = (Inr (0, []), st, rd))
          \<and> ZipInputStream_peek st rd = (Inr (- 1), st, rd))"
proof -
  from new_stream[OF assms(1,2,3)]
  have i0: "zis_inv st0 rd1" and p0: "pending st0 rd1 = payload (rd_slots rd0 ! rd_cursor rd0)"
    by blast+
  from run_ops_queue[OF i0 assms(4,5)]
  have q: "queue_results (pending st0 rd1) rs"
    and d: "pending st0 rd1 = delivered rs @ pending st rd"
    and i: "zis_inv st rd"
    and l: "rs \<noteq> [] \<and> (last rs = Delivered 0 [] \<or> last rs = Peeked (- 1)) \<longrightarrow> zis_eof st"
    by blast+
  from i have op: "zis_entry_open st" and e: "zis_eof st \<longrightarrow> pending st rd = []"
    by (simp_all add: zis_inv_def)
  have s: "zis_eof st \<longrightarrow>
          delivered rs = payload (rd_slots rd0 ! rd_cursor rd0)
          \<and> (\<forall>limit. ZipInputStream_read st rd limit = (Inr (0, []), st, rd))
          \<and> ZipInputStream_peek st rd = (Inr (- 1), st, rd)"
    using d e op unfolding p0 by (simp add: read_at_eof peek_at_eof)
  show ?thesis using q d l s unfolding p0 by (intro conjI)
qed

lemma sample_new:
  "ZipInputStream_new sample_reader ''a.txt'' =
     (None,
      \<lparr> zis_entry_name = ''a.txt'', zis_entry_open = True, zis_eof = False, zis_peek_byte = -2 \<rparr>,
      sample_reader\<lparr>rd_calls := [R_entry_open]\<rparr>)"
  by (simp add: ZipInputStream_new_def sample_reader_def reader_of_def plain_slot_def
      mz_zip_reader_entry_open_def rd_log_def MZ_OK_def)

lemma sample_run:
  "fst (run_ops \<lparr> zis_entry_name = ''a.txt'', zis_entry_open = True, zis_eof = False,
                  zis_peek_byte = -2 \<rparr>
          (sample_reader\<lparr>rd_calls := [R_entry_open]\<rparr>) sample_ops)
     = Inr [Peeked 1, Delivered 2 [1, 2], Peeked 3, Peeked 3, Delivered 1 [3],
            Delivered 0 [], Peeked (- 1)]"
  by code_simp


theorem input_stream_delivers_entry_in_order_witness:
  "rd_cursor sample_reader < length (rd_slots sample_reader)
   \<and> 0 < read_chunk (rd_slots sample_reader ! rd_cursor sample_reader)
   \<and> fst (ZipInputStream_new sample_reader ''a.txt'') = None
   \<and> list_all valid_op sample_ops
   \<and> fst (run_ops (fst (snd (ZipInputStream_new sample_reader ''a.txt'')))
              (snd (snd (ZipInputStream_new sample_reader ''a.txt''))) sample_ops)
       = Inr [Peeked 1, Delivered 2 [1, 2], Peeked 3, Peeked 3, Delivered 1 [3],
              Delivered 0 [], Peeked (- 1)]
   \<and> queue_results [1, 2, 3]
         [Peeked 1, Delivered 2 [1, 2], Peeked 3, Peeked 3, Delivered 1 [3],
          Delivered 0 [], Peeked (- 1)]
   \<and> zis_eof (fst (snd (run_ops (fst (snd (ZipInputStream_new sample_reader ''a.txt'')))
              (snd (snd (ZipInputStream_new sample_reader ''a.txt''))) sample_ops)))"
proof -
  let ?st0 = "\<lparr> zis_entry_name = ''a.txt'', zis_entry_open = True, zis_eof = False,
                zis_peek_byte = -2 \<rparr>"
  let ?rd1 = "sample_reader\<lparr>rd_calls := [R_entry_open]\<rparr>"
  let ?rs = "[Peeked 1, Delivered 2 [1, 2], Peeked 3, Peeked 3, Delivered 1 [3],
              Delivered 0 [], Peeked (- 1)]"
  let ?run = "run_ops ?st0 ?rd1 sample_ops"
  have h: "rd_cursor sample_reader < length (rd_slots sample_reader)"
    "0 < read_chunk (rd_slots sample_reader ! rd_cursor sample_reader)"
    "payload (rd_slots sample_reader ! rd_cursor sample_reader) = [1, 2, 3]"
    by (simp_all add: sample_reader_def reader_of_def plain_slot_def)
  have v: "\<forall>op \<in> set sample_ops. valid_op op"
    by (simp add: sample_ops_def)
  have r: "?run = (Inr ?rs, fst (snd ?run), snd (snd ?run))"
    using sample_run by (simp add: prod_eq_iff)
  from input_stream_delivers_entry_in_order[OF h(1,2) sample_new v r]
  have "queue_results [1, 2, 3] ?rs" and "zis_eof (fst (snd ?run))"
    unfolding h(3) by simp_all
  then show ?thesis using h(1,2) v sample_run by (simp add: sample_new list_all_iff)
qed

end
